theory Spec2Isabelle
  imports Complex_Main "HOL-Library.Char_ord" "HOL-Library.List_Lexorder" "HOL-Library.Multiset"
begin

section \<open>Strings\<close>

text \<open>
  A Python \<open>str\<close> is modelled as a \<open>string\<close> whose characters are the code points
  0 to 255 (Latin-1).  On that range the white space of \<open>str.strip\<close> and of the regular
  expression class \<open>\s\<close> is the same set: tab, line feed, vertical tab, form feed,
  carriage return, the separators 0x1C to 0x1F, space, NEL (0x85) and the no-break
  space (0xA0).
\<close>

definition is_space :: "char \<Rightarrow> bool" where
  "is_space c = (c \<in> {CHR 0x09, CHR 0x0A, CHR 0x0B, CHR 0x0C, CHR 0x0D,
                       CHR 0x1C, CHR 0x1D, CHR 0x1E, CHR 0x1F, CHR 0x20,
                       CHR 0x85, CHR 0xA0})"

text \<open>\<open>str.strip()\<close>: white space removed at both ends.\<close>

definition strip :: "string \<Rightarrow> string" where
  "strip s = rev (dropWhile is_space (rev (dropWhile is_space s)))"

text \<open>
  \<open>str.lower()\<close> on Latin-1: the letters A to Z and the accented capitals 0xC0 to 0xDE
  (the multiplication sign 0xD7 apart) move up by 32; every other character stays.
\<close>

definition lower_char :: "char \<Rightarrow> char" where
  "lower_char c =
     (let n = (of_char c :: nat) in
      if (65 \<le> n \<and> n \<le> 90) \<or> (192 \<le> n \<and> n \<le> 222 \<and> n \<noteq> 215)
      then char_of (n + 32) else c)"

definition lower :: "string \<Rightarrow> string" where
  "lower s = map lower_char s"

text \<open>\<open>re.sub(r"\s+", " ", s)\<close>: every maximal run of white space becomes one space.\<close>

function collapse_ws :: "string \<Rightarrow> string" where
  "collapse_ws [] = []"
| "collapse_ws (c # cs) =
     (if is_space c then CHR '' '' # collapse_ws (dropWhile is_space cs)
      else c # collapse_ws cs)"
  by pat_completeness auto
termination
  by (relation "measure length") (auto simp: length_dropWhile_le less_Suc_eq_le)

text \<open>\<open>_normalize_name\<close>: \<open>re.sub(r"\s+", " ", name.strip().lower())\<close>.\<close>

definition normalize_name :: "string \<Rightarrow> string" where
  "normalize_name name = collapse_ws (lower (strip name))"

text \<open>The boilerplate set: the four literals, each normalised when the module is loaded.\<close>

definition COMMON_MENU_ITEM_FILTER :: "string set" where
  "COMMON_MENU_ITEM_FILTER =
     set (map normalize_name
       [''Garden Bar:'', ''organic fresh fruits and veggies'',
        ''straus organic 1% milk'', ''non-fat milk''])"

subsection \<open>Integers and text\<close>

definition is_digit :: "char \<Rightarrow> bool" where
  "is_digit c = (c \<in> set ''0123456789'')"

definition digit_val :: "char \<Rightarrow> nat" where
  "digit_val c = of_char c - 48"

text \<open>
  The digits of a base 10 literal, with the single underscores Python allows between
  two digits.
\<close>

fun parse_digits :: "nat \<Rightarrow> string \<Rightarrow> nat option" where
  "parse_digits acc [] = Some acc"
| "parse_digits acc (c # cs) =
     (if is_digit c then parse_digits (10 * acc + digit_val c) cs
      else if c = CHR ''_'' then
        (case cs of
           [] \<Rightarrow> None
         | d # _ \<Rightarrow> if is_digit d then parse_digits acc cs else None)
      else None)"

text \<open>
  The interpreter refuses a decimal literal of more than 4300 digits, leading zeros
  counted (the default of \<open>sys.get_int_max_str_digits()\<close>, from CPython 3.11 on).
\<close>

definition MAX_STR_DIGITS :: nat where "MAX_STR_DIGITS = 4300"

definition parse_unsigned :: "string \<Rightarrow> nat option" where
  "parse_unsigned s =
     (case s of
        [] \<Rightarrow> None
      | c # _ \<Rightarrow>
          if is_digit c then
            (if length (filter is_digit s) > MAX_STR_DIGITS then None else parse_digits 0 s)
          else None)"

text \<open>
  The white space \<open>int\<close> skips around a literal is narrower than that of \<open>strip\<close>: of
  the ASCII characters only tab, line feed, vertical tab, form feed, carriage return
  and space (the separators 0x1C to 0x1F make the literal invalid), and beyond ASCII
  the white space of Unicode, here NEL and the no-break space.
\<close>

definition is_int_space :: "char \<Rightarrow> bool" where
  "is_int_space c = (c \<in> {CHR 0x09, CHR 0x0A, CHR 0x0B, CHR 0x0C, CHR 0x0D, CHR 0x20,
                           CHR 0x85, CHR 0xA0})"

text \<open>
  \<open>int(s)\<close> for a string: white space around the literal is dropped, one sign may lead,
  and anything else is a \<open>ValueError\<close>, here \<open>None\<close>.
\<close>

definition int_of_str :: "string \<Rightarrow> int option" where
  "int_of_str s =
     (case rev (dropWhile is_int_space (rev (dropWhile is_int_space s))) of
        [] \<Rightarrow> None
      | c # cs \<Rightarrow>
          if c = CHR ''-'' then map_option (\<lambda>n. - int n) (parse_unsigned cs)
          else if c = CHR ''+'' then map_option int (parse_unsigned cs)
          else map_option int (parse_unsigned (c # cs)))"

text \<open>\<open>str(n)\<close> for an integer.\<close>

definition digit_char :: "nat \<Rightarrow> char" where
  "digit_char k = ''0123456789'' ! k"

function dec :: "nat \<Rightarrow> string" where
  "dec n = (if n < 10 then [digit_char n] else dec (n div 10) @ [digit_char (n mod 10)])"
  by pat_completeness auto
termination
  by (relation "measure id") auto

definition str_of_int :: "int \<Rightarrow> string" where
  "str_of_int i = (if i < 0 then CHR ''-'' # dec (nat (- i)) else dec (nat i))"

definition zero_pad :: "nat \<Rightarrow> string \<Rightarrow> string" where
  "zero_pad w s = replicate (w - length s) CHR ''0'' @ s"

text \<open>
  The format \<open>02d\<close>: zeros fill up to a width of two, and the sign counts in the
  width.
\<close>

definition fmt_02d :: "int \<Rightarrow> string" where
  "fmt_02d i =
     (if i < 0 then CHR ''-'' # zero_pad 1 (dec (nat (- i))) else zero_pad 2 (dec (nat i)))"

section \<open>Errors\<close>

text \<open>
  Every \<open>raise\<close> of the module is a \<open>ValueError\<close> whose message is built from a fixed
  text and some values; \<open>reason\<close> keeps which text it was and the values.  The other
  constructors of \<open>error\<close> are the exceptions of the calls the module makes.
\<close>

datatype pyval = PNone | PBool bool | PInt int | PStr string

datatype reason =
    DistrictIdRequired
  | SchoolIdRequired
  | MenuNameRequired
  | SchoolNotInOrganization string string
  | NoMenuTypes
  | AmbiguousExact string
  | MenuNameNotFound string "pyval list"
  | AmbiguousCandidates string "pyval list"

datatype error =
    ValueError reason
  | GraphQLError
  | HTTPError
  | AttributeError
  | KeyError
  | TypeError
  | OverflowError

section \<open>Settings\<close>

text \<open>
  The raw settings are a dictionary from strings to strings; \<open>settings.get(k, d)\<close> is
  \<open>get_or settings k d\<close>.
\<close>

type_synonym settings = "string \<rightharpoonup> string"

definition get_or :: "settings \<Rightarrow> string \<Rightarrow> string \<Rightarrow> string" where
  "get_or settings k d = (case settings k of None \<Rightarrow> d | Some v \<Rightarrow> v)"

definition MIN_DAYS :: int where "MIN_DAYS = 1"
definition MAX_DAYS :: int where "MAX_DAYS = 5"
definition PENDING_TEXT :: string where "PENDING_TEXT = ''Not yet published''"

text \<open>
  \<open>FONT_SIZES.get(key, 1.0)\<close>.  The table's decimal literals are kept as exact
  fractions; the program only passes them on.
\<close>

definition FONT_SIZES :: "string \<rightharpoonup> rat" where
  "FONT_SIZES =
     [''x-small'' \<mapsto> 6 / 10, ''smaller'' \<mapsto> 7 / 10, ''small'' \<mapsto> 8 / 10,
      ''normal'' \<mapsto> 1, ''large'' \<mapsto> 12 / 10, ''larger'' \<mapsto> 14 / 10,
      ''x-large'' \<mapsto> 16 / 10]"

record ParsedSettings =
  district_id :: string
  school_id :: string
  menu_name :: string
  days :: int
  title :: string
  show_date :: bool
  font_scale :: rat
  primary_color :: string
  text_color :: string
  background_color :: string
  show_timestamp :: bool

definition truthy_flag :: "string \<Rightarrow> bool" where
  "truthy_flag v = (lower v \<in> {''1'', ''true'', ''yes'', ''on''})"

text \<open>
  \<open>int(settings.get("numDays", 3))\<close> inside \<open>try\<close>, any exception giving 3, followed by
  the range check.
\<close>

definition parse_days :: "settings \<Rightarrow> int" where
  "parse_days settings =
     (let days = (case settings ''numDays'' of
                    None \<Rightarrow> 3
                  | Some v \<Rightarrow> (case int_of_str v of None \<Rightarrow> 3 | Some n \<Rightarrow> n))
      in if \<not> (MIN_DAYS \<le> days \<and> days \<le> MAX_DAYS) then 3 else days)"

definition parse_settings :: "settings \<Rightarrow> error + ParsedSettings" where
  "parse_settings settings =
     (let district_id = strip (get_or settings ''districtId'' []) in
      if district_id = [] then Inl (ValueError DistrictIdRequired) else
      let school_id = strip (get_or settings ''schoolId'' []) in
      if school_id = [] then Inl (ValueError SchoolIdRequired) else
      let menu_name = strip (get_or settings ''menuName'' []) in
      if menu_name = [] then Inl (ValueError MenuNameRequired) else
      Inr \<lparr> district_id = district_id,
            school_id = school_id,
            menu_name = menu_name,
            days = parse_days settings,
            title = strip (get_or settings ''customTitle'' ''School Lunch Menu''),
            show_date = truthy_flag (get_or settings ''showDate'' ''true''),
            font_scale = (case FONT_SIZES (get_or settings ''fontSize'' ''normal'') of
                            None \<Rightarrow> 1 | Some f \<Rightarrow> f),
            primary_color = get_or settings ''primaryColor'' ''#323296'',
            text_color = get_or settings ''textColor'' ''#000000'',
            background_color = get_or settings ''backgroundColor'' ''#ffffff'',
            show_timestamp =
              truthy_flag (get_or settings ''showTimestamp''
                             (get_or settings ''displayRefreshTime'' ''true'')) \<rparr>)"

section \<open>Dictionaries\<close>

text \<open>
  A Python \<open>dict\<close> keeps its keys in insertion order and assigning to a key that is
  present keeps the key's place: an association list with distinct keys, \<open>d[k] = v\<close>
  being \<open>dict_set d k v\<close> and \<open>d.setdefault(k, []).append(x)\<close> being \<open>dict_append d k x\<close>.
\<close>

fun dict_set :: "('k \<times> 'v) list \<Rightarrow> 'k \<Rightarrow> 'v \<Rightarrow> ('k \<times> 'v) list" where
  "dict_set [] k v = [(k, v)]"
| "dict_set ((k', v') # d) k v = (if k' = k then (k, v) # d else (k', v') # dict_set d k v)"

definition dict_append :: "('k \<times> 'v list) list \<Rightarrow> 'k \<Rightarrow> 'v \<Rightarrow> ('k \<times> 'v list) list" where
  "dict_append d k x = dict_set d k ((case map_of d k of None \<Rightarrow> [] | Some v \<Rightarrow> v) @ [x])"

section \<open>Dates\<close>

text \<open>
  \<open>datetime.date\<close>: year, month and day of the proleptic Gregorian calendar, years 1 to
  9999.  The program reads the clock with \<open>date.today()\<close>; here the date read is the
  argument \<open>today\<close> of each function, one date for one request.
\<close>

record date =
  year :: nat
  month :: nat
  day :: nat

definition MAXYEAR :: nat where "MAXYEAR = 9999"

definition is_leap :: "nat \<Rightarrow> bool" where
  "is_leap y = (y mod 4 = 0 \<and> (y mod 100 \<noteq> 0 \<or> y mod 400 = 0))"

definition days_in_month :: "nat \<Rightarrow> nat \<Rightarrow> nat" where
  "days_in_month y m =
     (if m = 2 then (if is_leap y then 29 else 28)
      else if m \<in> {4, 6, 9, 11} then 30 else 31)"

definition valid_date :: "date \<Rightarrow> bool" where
  "valid_date d =
     (1 \<le> year d \<and> year d \<le> MAXYEAR \<and> 1 \<le> month d \<and> month d \<le> 12 \<and>
      1 \<le> day d \<and> day d \<le> days_in_month (year d) (month d))"

definition days_before_year :: "nat \<Rightarrow> nat" where
  "days_before_year y = (let p = y - 1 in p * 365 + p div 4 - p div 100 + p div 400)"

definition DAYS_BEFORE_MONTH :: "nat list" where
  "DAYS_BEFORE_MONTH = [0, 0, 31, 59, 90, 120, 151, 181, 212, 243, 273, 304, 334]"

definition days_before_month :: "nat \<Rightarrow> nat \<Rightarrow> nat" where
  "days_before_month y m = DAYS_BEFORE_MONTH ! m + (if m > 2 \<and> is_leap y then 1 else 0)"

text \<open>\<open>date.toordinal()\<close>: 1 for 0001-01-01.\<close>

definition toordinal :: "date \<Rightarrow> nat" where
  "toordinal d = days_before_year (year d) + days_before_month (year d) (month d) + day d"

text \<open>\<open>date.weekday()\<close>: 0 for Monday, 6 for Sunday.\<close>

definition weekday :: "date \<Rightarrow> nat" where
  "weekday d = (toordinal d + 6) mod 7"

definition date_max :: date where
  "date_max = \<lparr> year = 9999, month = 12, day = 31 \<rparr>"

text \<open>
  \<open>d + timedelta(days=1)\<close>: the next day of the month, else the first of the next
  month, else the first of January; past the last year it is an \<open>OverflowError\<close>.
\<close>

definition next_day :: "date \<Rightarrow> error + date" where
  "next_day d =
     (if day d + 1 \<le> days_in_month (year d) (month d) then Inr (d\<lparr>day := day d + 1\<rparr>)
      else if month d + 1 \<le> 12 then Inr (d\<lparr>month := month d + 1, day := 1\<rparr>)
      else if year d + 1 \<le> MAXYEAR then Inr \<lparr> year = year d + 1, month = 1, day = 1 \<rparr>
      else Inl OverflowError)"

text \<open>The order of dates: year, then month, then day.\<close>

definition date_less :: "date \<Rightarrow> date \<Rightarrow> bool" where
  "date_less a b =
     (year a < year b \<or>
      (year a = year b \<and> (month a < month b \<or> (month a = month b \<and> day a < day b))))"

definition date_ge :: "date \<Rightarrow> date \<Rightarrow> bool" where
  "date_ge a b = (\<not> date_less a b)"

text \<open>\<open>date.isoformat()\<close>: \<open>"%04d-%02d-%02d"\<close> of year, month and day.\<close>

definition isoformat :: "date \<Rightarrow> string" where
  "isoformat d =
     zero_pad 4 (dec (year d)) @ ''-'' @ zero_pad 2 (dec (month d)) @ ''-'' @
     zero_pad 2 (dec (day d))"

section \<open>The school-day window\<close>

text \<open>
  \<open>_next_school_days\<close>: the \<open>while\<close> loop with its two variables \<open>out\<close> and \<open>cur\<close>.  The
  loop ends: each round moves \<open>cur\<close> one day on, and no date lies after 9999-12-31.
\<close>

function next_school_days_loop :: "int \<Rightarrow> date list \<Rightarrow> date \<Rightarrow> error + date list" where
  "next_school_days_loop n out cur =
     (if int (length out) < n then
        (case next_day cur of
           Inl e \<Rightarrow> Inl e
         | Inr cur' \<Rightarrow>
             next_school_days_loop n (if weekday cur < 5 then out @ [cur] else out) cur')
      else Inr out)"
  by pat_completeness auto
termination
  by (relation "measures [\<lambda>(n, out, cur). MAXYEAR - year cur,
                          \<lambda>(n, out, cur). 12 - month cur,
                          \<lambda>(n, out, cur). 31 - day cur]")
     (auto simp: next_day_def days_in_month_def split: if_splits)

definition next_school_days :: "date \<Rightarrow> int \<Rightarrow> error + date list" where
  "next_school_days today n = next_school_days_loop n [] today"

section \<open>The provider\<close>

text \<open>
  \<open>_post_graphql\<close> sends a query and returns the \<open>data\<close> of the answer, or raises: on a
  transport failure, and a \<open>GraphQLError\<close> when the answer carries \<open>errors\<close>.  The three
  queries of the module are the three fields of \<open>provider\<close>, each from the values put
  into the query text to the error raised or to the list the module reads from the
  answer (a missing or null field is the empty list, as \<open>or []\<close> has it).  The scalar
  fields of an answer are JSON values without floats, \<open>pyval\<close>.
\<close>

record menu_type =
  mt_id :: "pyval option"
  mt_name :: "pyval option"

text \<open>
  In \<open>menu_type\<close>, \<open>None\<close> is a key the object does not have.  In \<open>raw_item\<close> every
  field is read with \<open>get\<close>, which gives \<open>None\<close> for a missing key as for a null;
  \<open>product_name\<close> is \<open>(it.get("product") or {}).get("name")\<close>.
\<close>

record raw_item =
  item_day :: pyval
  item_month :: pyval
  item_year :: pyval
  product_name :: pyval

record provider =
  organization_sites :: "string \<Rightarrow> error + pyval list"
  menuTypes :: "string \<Rightarrow> string \<Rightarrow> error + menu_type list"
  menu_items :: "pyval \<Rightarrow> int \<Rightarrow> int \<Rightarrow> error + raw_item list"

text \<open>Truth value, \<open>str\<close> and \<open>int\<close> of a scalar; \<open>int\<close> gives \<open>None\<close> where it raises.\<close>

fun truthy :: "pyval \<Rightarrow> bool" where
  "truthy PNone = False"
| "truthy (PBool b) = b"
| "truthy (PInt n) = (n \<noteq> 0)"
| "truthy (PStr s) = (s \<noteq> [])"

fun py_str :: "pyval \<Rightarrow> string" where
  "py_str PNone = ''None''"
| "py_str (PBool b) = (if b then ''True'' else ''False'')"
| "py_str (PInt n) = str_of_int n"
| "py_str (PStr s) = s"

fun int_of_val :: "pyval \<Rightarrow> int option" where
  "int_of_val PNone = None"
| "int_of_val (PBool b) = Some (if b then 1 else 0)"
| "int_of_val (PInt n) = Some n"
| "int_of_val (PStr s) = int_of_str s"

text \<open>
  \<open>sorted\<close> of a set of scalars goes through when they can be compared with each other:
  all of them numbers (\<open>bool\<close> counts as a number), all of them strings, or nothing
  but \<open>None\<close>, which a set holds once.  Otherwise a comparison raises \<open>TypeError\<close>.
\<close>

fun is_number :: "pyval \<Rightarrow> bool" where
  "is_number (PInt n) = True"
| "is_number (PBool b) = True"
| "is_number v = False"

fun is_text :: "pyval \<Rightarrow> bool" where
  "is_text (PStr s) = True"
| "is_text v = False"

definition sortable :: "pyval list \<Rightarrow> bool" where
  "sortable vs =
     (list_all (\<lambda>v. v = PNone) vs \<or> list_all is_number vs \<or> list_all is_text vs)"

text \<open>
  \<open>_validate_site_in_district\<close>.  The message of its \<open>ValueError\<close> lists the ids of the
  organization's sites with \<open>sorted(school_ids)\<close>, so building it raises \<open>TypeError\<close> for
  ids that cannot be sorted; the reason keeps the two ids asked about only.
\<close>

definition validate_site_in_district :: "provider \<Rightarrow> string \<Rightarrow> string \<Rightarrow> error + unit" where
  "validate_site_in_district p district school =
     (case organization_sites p district of
        Inl e \<Rightarrow> Inl e
      | Inr school_ids \<Rightarrow>
          if PStr school \<notin> set school_ids
          then (if sortable school_ids
                then Inl (ValueError (SchoolNotInOrganization school district))
                else Inl TypeError)
          else Inr ())"

section \<open>Menu type resolution\<close>

text \<open>\<open>t in s\<close> for strings: \<open>t\<close> occurs in \<open>s\<close> as a block.\<close>

fun is_substring :: "string \<Rightarrow> string \<Rightarrow> bool" where
  "is_substring t [] = (t = [])"
| "is_substring t (c # cs) = (take (length t) (c # cs) = t \<or> is_substring t cs)"

text \<open>
  \<open>[mt for mt in menu_types if P(_normalize_name(mt.get("name", "")))]\<close>: a name that
  is not a string has no \<open>strip\<close>, and the comprehension raises \<open>AttributeError\<close>.
\<close>

fun matching :: "(string \<Rightarrow> bool) \<Rightarrow> menu_type list \<Rightarrow> error + menu_type list" where
  "matching P [] = Inr []"
| "matching P (mt # mts) =
     (case (case mt_name mt of None \<Rightarrow> PStr [] | Some v \<Rightarrow> v) of
        PStr s \<Rightarrow>
          (case matching P mts of
             Inl e \<Rightarrow> Inl e
           | Inr r \<Rightarrow> Inr (if P (normalize_name s) then mt # r else r))
      | _ \<Rightarrow> Inl AttributeError)"

text \<open>\<open>mt["id"]\<close> and \<open>mt.get("name")\<close>.\<close>

definition id_of :: "menu_type \<Rightarrow> error + pyval" where
  "id_of mt = (case mt_id mt of None \<Rightarrow> Inl KeyError | Some v \<Rightarrow> Inr v)"

definition name_of :: "menu_type \<Rightarrow> pyval" where
  "name_of mt = (case mt_name mt of None \<Rightarrow> PNone | Some v \<Rightarrow> v)"

text \<open>
  The resolution of \<open>fetch_menu_items\<close>, from \<open>target = _normalize_name(menu_name)\<close> to
  the last \<open>raise\<close>; its value is \<open>menu_type_id\<close>.
\<close>

definition resolve_menu_type :: "string \<Rightarrow> menu_type list \<Rightarrow> error + pyval" where
  "resolve_menu_type name menu_types =
     (let target = normalize_name name in
      case matching (\<lambda>n. n = target) menu_types of
        Inl e \<Rightarrow> Inl e
      | Inr exact \<Rightarrow>
          if length exact = 1 then id_of (hd exact)
          else if length exact > 1 then Inl (ValueError (AmbiguousExact name))
          else
            (case matching (is_substring target) menu_types of
               Inl e \<Rightarrow> Inl e
             | Inr partial \<Rightarrow>
                 if length partial = 1 then id_of (hd partial)
                 else if partial = [] then
                   Inl (ValueError (MenuNameNotFound name (map name_of menu_types)))
                 else Inl (ValueError (AmbiguousCandidates name (map name_of partial)))))"

section \<open>Fetching the items\<close>

text \<open>The months to query, as pairs of a month counted from 0 and a year.\<close>

definition months_to_fetch :: "date \<Rightarrow> (int \<times> int) list" where
  "months_to_fetch today =
     [(int (month today) - 1, int (year today))] @
     (if day today > 20 then
        (if month today = 12 then [(0, int (year today) + 1)]
         else [(int (month today), int (year today))])
      else [])"

text \<open>
  One round of the loop over \<open>items\<close>: \<open>Inr\<close> of the unchanged dictionary is
  \<open>continue\<close>.
\<close>

definition process_item ::
  "int \<Rightarrow> int \<Rightarrow> (string \<times> string list) list \<Rightarrow> raw_item \<Rightarrow> error + (string \<times> string list) list"
where
  "process_item m_idx year_val by_date it =
     (let month_num = (case item_month it of
                         PInt n \<Rightarrow> n + 1
                       | PBool b \<Rightarrow> (if b then 1 else 0) + 1
                       | _ \<Rightarrow> m_idx + 1);
          item_year = (if truthy (item_year it) then item_year it else PInt year_val)
      in case int_of_val (item_day it) of
           None \<Rightarrow> Inr by_date
         | Some day_int \<Rightarrow>
             (let date_key = py_str item_year @ ''-'' @ fmt_02d month_num @ ''-'' @ fmt_02d day_int;
                  name = product_name it
              in if \<not> truthy name then Inr by_date
                 else
                   (case name of
                      PStr s \<Rightarrow>
                        if normalize_name s \<in> COMMON_MENU_ITEM_FILTER then Inr by_date
                        else Inr (dict_append by_date date_key s)
                    | _ \<Rightarrow> Inl AttributeError)))"

fun process_items ::
  "int \<Rightarrow> int \<Rightarrow> (string \<times> string list) list \<Rightarrow> raw_item list \<Rightarrow> error + (string \<times> string list) list"
where
  "process_items m_idx year_val by_date [] = Inr by_date"
| "process_items m_idx year_val by_date (it # its) =
     (case process_item m_idx year_val by_date it of
        Inl e \<Rightarrow> Inl e
      | Inr by_date' \<Rightarrow> process_items m_idx year_val by_date' its)"

fun fetch_months ::
  "provider \<Rightarrow> pyval \<Rightarrow> (string \<times> string list) list \<Rightarrow> (int \<times> int) list \<Rightarrow>
   error + (string \<times> string list) list"
where
  "fetch_months p menu_type_id by_date [] = Inr by_date"
| "fetch_months p menu_type_id by_date ((m_idx, year_val) # rest) =
     (case menu_items p menu_type_id m_idx year_val of
        Inl e \<Rightarrow> Inl e
      | Inr items \<Rightarrow>
          (case process_items m_idx year_val by_date items of
             Inl e \<Rightarrow> Inl e
           | Inr by_date' \<Rightarrow> fetch_months p menu_type_id by_date' rest))"

text \<open>
  The end of \<open>fetch_menu_items\<close>: the keys sorted, each entered in \<open>ordered\<close> with its
  list, and the entries with an empty list left out.
\<close>

definition order_and_filter :: "(string \<times> string list) list \<Rightarrow> (string \<times> string list) list" where
  "order_and_filter by_date =
     (let ordered = foldl (\<lambda>acc k. dict_set acc k (case map_of by_date k of None \<Rightarrow> [] | Some v \<Rightarrow> v))
                      [] (sort (map fst by_date))
      in filter (\<lambda>(k, v). v \<noteq> []) ordered)"

definition fetch_menu_items ::
  "provider \<Rightarrow> date \<Rightarrow> string \<Rightarrow> string \<Rightarrow> string \<Rightarrow> string \<Rightarrow> error + (string \<times> string list) list"
where
  "fetch_menu_items p today district site name publish_location =
     (case (if district \<noteq> [] then validate_site_in_district p district site else Inr ()) of
        Inl e \<Rightarrow> Inl e
      | Inr _ \<Rightarrow>
          (case menuTypes p site publish_location of
             Inl e \<Rightarrow> Inl e
           | Inr menu_types \<Rightarrow>
               if menu_types = [] then Inl (ValueError NoMenuTypes)
               else
                 (case resolve_menu_type name menu_types of
                    Inl e \<Rightarrow> Inl e
                  | Inr menu_type_id \<Rightarrow>
                      (case fetch_months p menu_type_id [] (months_to_fetch today) of
                         Inl e \<Rightarrow> Inl e
                       | Inr by_date \<Rightarrow> Inr (order_and_filter by_date)))))"

section \<open>The mapping handed to the renderer\<close>

text \<open>
  The loop of \<open>generate_image\<close> over \<open>target_days\<close>, filling \<open>menu_subset\<close>.
\<close>

definition select_day ::
  "bool \<Rightarrow> (string \<times> string list) list \<Rightarrow> date \<Rightarrow> (string \<times> string list) list \<Rightarrow> date \<Rightarrow>
   (string \<times> string list) list"
where
  "select_day fetch_ok all_items today menu_subset d =
     (let iso = isoformat d in
      case map_of all_items iso of
        Some v \<Rightarrow> dict_set menu_subset iso v
      | None \<Rightarrow>
          if fetch_ok \<and> date_ge d today then dict_set menu_subset iso [PENDING_TEXT]
          else dict_set menu_subset iso [])"

definition select_window ::
  "bool \<Rightarrow> (string \<times> string list) list \<Rightarrow> date \<Rightarrow> date list \<Rightarrow> (string \<times> string list) list"
where
  "select_window fetch_ok all_items today target_days =
     foldl (select_day fetch_ok all_items today) [] target_days"

text \<open>
  \<open>generate_image\<close> up to \<open>menu_subset\<close>, the \<open>menu_data\<close> of the template parameters;
  its first component tells whether the fetch went through.  An error of
  \<open>_parse_settings\<close> or of \<open>_next_school_days\<close> is not caught; any error of the fetch
  is.
\<close>

definition generate_image ::
  "provider \<Rightarrow> date \<Rightarrow> settings \<Rightarrow> error + bool \<times> (string \<times> string list) list"
where
  "generate_image p today settings =
     (case parse_settings settings of
        Inl e \<Rightarrow> Inl e
      | Inr cfg \<Rightarrow>
          (let (fetch_ok, all_items) =
                 (case fetch_menu_items p today (district_id cfg) (school_id cfg) (menu_name cfg)
                         ''website'' of
                    Inr items \<Rightarrow> (True, items)
                  | Inl e \<Rightarrow> (False, [(isoformat today, [''Menu not available''])]))
           in case next_school_days today (days cfg) of
                Inl e \<Rightarrow> Inl e
              | Inr target_days \<Rightarrow>
                  Inr (fetch_ok, select_window fetch_ok all_items today target_days)))"

section \<open>Notions of the specification\<close>

text \<open>
  The definitions of this section follow the words of the specification, not the
  program; the theorems compare the program with them.
\<close>

text \<open>
  The month after a calendar month (months 1 to 12): January of the next year after
  December.  The provider counts months from 0.
\<close>

definition following_month :: "nat \<times> nat \<Rightarrow> nat \<times> nat" where
  "following_month my = (case my of (m, y) \<Rightarrow> if m = 12 then (1, y + 1) else (m + 1, y))"

definition zero_indexed :: "nat \<times> nat \<Rightarrow> int \<times> int" where
  "zero_indexed my = (case my of (m, y) \<Rightarrow> (int m - 1, int y))"

text \<open>
  The months to query: always the current one, and the following one as well when the
  day of the month is greater than 20.
\<close>

definition spec_months :: "date \<Rightarrow> (int \<times> int) set" where
  "spec_months today =
     insert (zero_indexed (month today, year today))
       (if 20 < day today then {zero_indexed (following_month (month today, year today))} else {})"

text \<open>The \<open>k\<close> calendar days from \<open>d\<close> on, \<open>d\<close> first, stopping at the last date.\<close>

fun days_from :: "date \<Rightarrow> nat \<Rightarrow> date list" where
  "days_from d 0 = []"
| "days_from d (Suc k) = d # (case next_day d of Inl e \<Rightarrow> [] | Inr d' \<Rightarrow> days_from d' k)"

definition is_school_day :: "date \<Rightarrow> bool" where
  "is_school_day d = (weekday d < 5)"

text \<open>
  The normalized name of a candidate menu type, when its name is a string (a missing
  name counts as the empty string), and the exact and the partial matches of a
  target name among the candidates.
\<close>

definition normalized_name :: "menu_type \<Rightarrow> string option" where
  "normalized_name mt =
     (case mt_name mt of
        None \<Rightarrow> Some (normalize_name [])
      | Some (PStr s) \<Rightarrow> Some (normalize_name s)
      | Some _ \<Rightarrow> None)"

definition well_formed :: "menu_type list \<Rightarrow> bool" where
  "well_formed mts = list_all (\<lambda>mt. normalized_name mt \<noteq> None \<and> mt_id mt \<noteq> None) mts"

definition exact_matches :: "string \<Rightarrow> menu_type list \<Rightarrow> menu_type list" where
  "exact_matches name mts =
     filter (\<lambda>mt. normalized_name mt = Some (normalize_name name)) mts"

definition partial_matches :: "string \<Rightarrow> menu_type list \<Rightarrow> menu_type list" where
  "partial_matches name mts =
     filter (\<lambda>mt. case normalized_name mt of
                    None \<Rightarrow> False
                  | Some n \<Rightarrow> is_substring (normalize_name name) n) mts"

section \<open>Notions of the proofs\<close>

text \<open>The number a string of digits stands for, read from the left.\<close>

definition digits_value :: "string \<Rightarrow> nat" where
  "digits_value s = foldl (\<lambda>a c. 10 * a + digit_val c) 0 s"

text \<open>The list a day gets in the loop of the window.\<close>

definition day_entry :: "bool \<Rightarrow> (string \<times> string list) list \<Rightarrow> date \<Rightarrow> date \<Rightarrow> string list" where
  "day_entry fetch_ok all_items today d =
     (case map_of all_items (isoformat d) of
        Some v \<Rightarrow> v
      | None \<Rightarrow> if fetch_ok \<and> date_ge d today then [PENDING_TEXT] else [])"

text \<open>
  A dictionary of dates is clean when no list in it is empty and no name in it
  normalizes to a member of the boilerplate set.
\<close>

definition clean :: "(string \<times> string list) list \<Rightarrow> bool" where
  "clean d = (\<forall>(k, v)\<in>set d. v \<noteq> [] \<and> (\<forall>x\<in>set v. normalize_name x \<notin> COMMON_MENU_ITEM_FILTER))"

section \<open>Properties of the settings parser\<close>

lemma fetch_months_sites_irrelevant:
  "fetch_months (p\<lparr>organization_sites := f\<rparr>) mt by_date ms = fetch_months p mt by_date ms"
  by (induction ms arbitrary: by_date) (auto split: sum.splits)

lemma strip_nonempty_literal:
  "strip ''894'' = ''894''" "strip ''1212'' = ''1212''" "strip ''Lunch'' = ''Lunch''"
  by (simp_all add: strip_def is_space_def)

text \<open>
  Claim C1 as the specification has it: with \<open>districtId\<close> missing and the other two
  fields present, parsing would succeed.  It does not: the parser raises its first
  \<open>ValueError\<close>, "districtId is required".
\<close>

theorem district_id_required_counterexample:
  "strip (get_or [''schoolId'' \<mapsto> ''894'', ''menuName'' \<mapsto> ''Lunch''] ''districtId'' []) = [] \<and>
   strip (get_or [''schoolId'' \<mapsto> ''894'', ''menuName'' \<mapsto> ''Lunch''] ''schoolId'' []) \<noteq> [] \<and>
   strip (get_or [''schoolId'' \<mapsto> ''894'', ''menuName'' \<mapsto> ''Lunch''] ''menuName'' []) \<noteq> [] \<and>
   parse_settings [''schoolId'' \<mapsto> ''894'', ''menuName'' \<mapsto> ''Lunch'']
     = Inl (ValueError DistrictIdRequired)"
  by (simp add: parse_settings_def get_or_def strip_def is_space_def)

text \<open>
  Claim C1, amended: \<open>_parse_settings\<close> requires all three of \<open>districtId\<close>, \<open>schoolId\<close>
  and \<open>menuName\<close>.  With \<open>districtId\<close> empty or missing after trimming it fails with the
  error "districtId is required"; it succeeds exactly when the three are non-empty
  after trimming.  Only \<open>fetch_menu_items\<close> takes an empty district: it then never asks
  the provider for the organization's sites, so its result does not depend on them.
\<close>

theorem district_id_required:
  "(strip (get_or s ''districtId'' []) = [] \<longrightarrow>
      parse_settings s = Inl (ValueError DistrictIdRequired)) \<and>
   ((\<exists>cfg. parse_settings s = Inr cfg) \<longleftrightarrow>
      strip (get_or s ''districtId'' []) \<noteq> [] \<and> strip (get_or s ''schoolId'' []) \<noteq> [] \<and>
      strip (get_or s ''menuName'' []) \<noteq> []) \<and>
   fetch_menu_items (p\<lparr>organization_sites := f\<rparr>) today [] site name loc
     = fetch_menu_items p today [] site name loc"
  by (auto simp: parse_settings_def Let_def fetch_menu_items_def fetch_months_sites_irrelevant
           split: sum.splits)

theorem district_id_required_witness:
  "parse_settings (Map.empty(''schoolId'' \<mapsto> ''894'')) = Inl (ValueError DistrictIdRequired) \<and>
   (\<exists>cfg. parse_settings [''districtId'' \<mapsto> ''1212'', ''schoolId'' \<mapsto> ''894'', ''menuName'' \<mapsto> ''Lunch''] = Inr cfg)"
proof -
  have a: "strip (get_or (Map.empty(''schoolId'' \<mapsto> ''894'')) ''districtId'' []) = []"
    by (simp add: get_or_def strip_def)
  have b: "strip (get_or [''districtId'' \<mapsto> ''1212'', ''schoolId'' \<mapsto> ''894'', ''menuName'' \<mapsto> ''Lunch''] ''districtId'' []) \<noteq> [] \<and>
           strip (get_or [''districtId'' \<mapsto> ''1212'', ''schoolId'' \<mapsto> ''894'', ''menuName'' \<mapsto> ''Lunch''] ''schoolId'' []) \<noteq> [] \<and>
           strip (get_or [''districtId'' \<mapsto> ''1212'', ''schoolId'' \<mapsto> ''894'', ''menuName'' \<mapsto> ''Lunch''] ''menuName'' []) \<noteq> []"
    by (simp add: get_or_def strip_nonempty_literal)
  from district_id_required [of "Map.empty(''schoolId'' \<mapsto> ''894'')"] a
  have 1: "parse_settings (Map.empty(''schoolId'' \<mapsto> ''894'')) = Inl (ValueError DistrictIdRequired)"
    by blast
  from district_id_required [of "[''districtId'' \<mapsto> ''1212'', ''schoolId'' \<mapsto> ''894'', ''menuName'' \<mapsto> ''Lunch'']"] b
  have 2: "\<exists>cfg. parse_settings [''districtId'' \<mapsto> ''1212'', ''schoolId'' \<mapsto> ''894'', ''menuName'' \<mapsto> ''Lunch''] = Inr cfg"
    by blast
  from 1 2 show ?thesis by blast
qed

text \<open>
  Two readings of \<open>int\<close>: a separator character before the digit is no white space
  for it, spaces around the digit are.
\<close>

lemma int_of_str_separator: "int_of_str [CHR 0x1C, CHR ''4''] = None"
  by code_simp

lemma int_of_str_padded: "int_of_str ''  4 '' = Some 4"
  by code_simp

text \<open>
  Claim C8: when the three required fields are present, parsing succeeds whatever
  \<open>numDays\<close> holds, and \<open>days\<close> is the parsed integer when it lies in 1 to 5 and 3 in
  every other case: the key missing, a text that is no integer, an integer out of
  range.  In particular a missing key, "0", "6" and "abc" all give 3.
\<close>

theorem numDays_fallback:
  assumes "strip (get_or s ''districtId'' []) \<noteq> []"
    and "strip (get_or s ''schoolId'' []) \<noteq> []"
    and "strip (get_or s ''menuName'' []) \<noteq> []"
  shows "\<exists>cfg. parse_settings s = Inr cfg \<and>
           days cfg = (case s ''numDays'' of
                         None \<Rightarrow> 3
                       | Some v \<Rightarrow> (case int_of_str v of
                                      None \<Rightarrow> 3
                                    | Some n \<Rightarrow> if 1 \<le> n \<and> n \<le> 5 then n else 3)) \<and>
           (s ''numDays'' \<in> {None, Some ''0'', Some ''6'', Some ''abc''} \<longrightarrow> days cfg = 3)"
proof -
  have i0: "int_of_str ''0'' = Some 0" by code_simp
  have i6: "int_of_str ''6'' = Some 6" by code_simp
  have ia: "int_of_str ''abc'' = None" by code_simp
  show ?thesis
    using assms
    by (auto simp: parse_settings_def Let_def parse_days_def MIN_DAYS_def MAX_DAYS_def i0 i6 ia
             split: option.splits)
qed

theorem numDays_fallback_witness:
  "\<exists>cfg. parse_settings [''districtId'' \<mapsto> ''1212'', ''schoolId'' \<mapsto> ''894'',
                           ''menuName'' \<mapsto> ''Lunch'', ''numDays'' \<mapsto> ''6''] = Inr cfg \<and>
         days cfg = 3"
proof -
  let ?s = "[''districtId'' \<mapsto> ''1212'', ''schoolId'' \<mapsto> ''894'',
             ''menuName'' \<mapsto> ''Lunch'', ''numDays'' \<mapsto> ''6'']"
  have a: "strip (get_or ?s ''districtId'' []) \<noteq> []" "strip (get_or ?s ''schoolId'' []) \<noteq> []"
    "strip (get_or ?s ''menuName'' []) \<noteq> []"
    by (simp_all add: get_or_def strip_nonempty_literal)
  have n: "?s ''numDays'' = Some ''6''" by simp
  from numDays_fallback [OF a] n show ?thesis by auto
qed

section \<open>The calendar\<close>

declare dec.simps [simp del]
declare next_school_days_loop.simps [simp del]


lemma days_before_year_Suc:
  assumes "1 \<le> y"
  shows "days_before_year (Suc y) = days_before_year y + (if is_leap y then 366 else 365)"
proof -
  from assms obtain p where y: "y = Suc p" by (cases y) auto
  define a where "a = p div 4"
  define b where "b = p div 100"
  define c where "c = p div 400"
  have le: "b \<le> a" unfolding a_def b_def by (rule div_le_mono2) simp_all
  have m4: "Suc p mod 100 = 0 \<Longrightarrow> Suc p mod 4 = 0"
    using mod_mod_cancel [of 4 100 "Suc p"] by simp
  have m100: "Suc p mod 400 = 0 \<Longrightarrow> Suc p mod 100 = 0"
    using mod_mod_cancel [of 100 400 "Suc p"] by simp
  have d4: "Suc p div 4 = (if Suc p mod 4 = 0 then Suc a else a)" by (simp add: div_Suc a_def)
  have d100: "Suc p div 100 = (if Suc p mod 100 = 0 then Suc b else b)" by (simp add: div_Suc b_def)
  have d400: "Suc p div 400 = (if Suc p mod 400 = 0 then Suc c else c)" by (simp add: div_Suc c_def)
  have lhs: "days_before_year (Suc (Suc p)) = Suc p * 365 + Suc p div 4 - Suc p div 100 + Suc p div 400"
    by (simp add: days_before_year_def)
  have rhs: "days_before_year (Suc p) = p * 365 + a - b + c"
    by (simp add: days_before_year_def a_def b_def c_def)
  show ?thesis
    unfolding y lhs rhs d4 d100 d400 is_leap_def
    using le m4 m100 by (auto split: if_splits)
qed

lemma days_before_month_Suc:
  assumes "1 \<le> m" "m < 12"
  shows "days_before_month y (Suc m) = days_before_month y m + days_in_month y m"
proof -
  from assms have "m = 1 \<or> m = 2 \<or> m = 3 \<or> m = 4 \<or> m = 5 \<or> m = 6 \<or> m = 7 \<or> m = 8 \<or> m = 9 \<or>
    m = 10 \<or> m = 11" by arith
  then show ?thesis
    by (elim disjE) (simp_all add: days_before_month_def DAYS_BEFORE_MONTH_def days_in_month_def)
qed

lemma days_in_month_pos: "Suc 0 \<le> days_in_month y m"
  by (simp add: days_in_month_def)

lemma next_day_Inr:
  assumes v: "valid_date d" and n: "next_day d = Inr d'"
  shows "valid_date d' \<and> toordinal d' = toordinal d + 1"
proof (cases "day d + 1 \<le> days_in_month (year d) (month d)")
  case True
  with n have "d' = d\<lparr>day := day d + 1\<rparr>" by (simp add: next_day_def)
  with v True show ?thesis by (simp add: valid_date_def toordinal_def)
next
  case False
  with v have last: "day d = days_in_month (year d) (month d)"
    by (simp add: valid_date_def)
  show ?thesis
  proof (cases "month d + 1 \<le> 12")
    case True
    with n False have "d' = d\<lparr>month := month d + 1, day := 1\<rparr>" by (simp add: next_day_def)
    with v True last show ?thesis
      by (simp add: valid_date_def toordinal_def days_before_month_Suc days_in_month_pos)
  next
    case notm: False
    with v have m: "month d = 12" by (simp add: valid_date_def)
    with last have dd: "day d = 31" by (simp add: days_in_month_def)
    from n False notm have y: "year d + 1 \<le> MAXYEAR"
      and d': "d' = \<lparr> year = year d + 1, month = 1, day = 1 \<rparr>"
      by (auto simp: next_day_def split: if_splits)
    from v have y1: "1 \<le> year d" by (simp add: valid_date_def)
    show ?thesis
      using y y1
      by (simp add: d' m dd valid_date_def toordinal_def days_before_year_Suc
          days_before_month_def DAYS_BEFORE_MONTH_def days_in_month_def)
  qed
qed

lemma toordinal_date_max: "toordinal date_max = 3652059"
  by (simp add: toordinal_def date_max_def days_before_year_def days_before_month_def
      DAYS_BEFORE_MONTH_def is_leap_def)

lemma next_day_Inl:
  assumes "valid_date d" "next_day d = Inl e"
  shows "d = date_max"
proof -
  from assms have "year d = 9999 \<and> month d = 12 \<and> day d = 31"
    by (auto simp: next_day_def valid_date_def days_in_month_def MAXYEAR_def split: if_splits)
  then show ?thesis by (simp add: date_max_def)
qed

section \<open>The loop of the school-day window\<close>

lemma loop_done: "\<not> int (length out) < n \<Longrightarrow> next_school_days_loop n out cur = Inr out"
  by (subst next_school_days_loop.simps) simp

lemma loop_step:
  "int (length out) < n \<Longrightarrow> next_day cur = Inr cur' \<Longrightarrow>
   next_school_days_loop n out cur =
   next_school_days_loop n (if is_school_day cur then out @ [cur] else out) cur'"
  by (subst next_school_days_loop.simps) (simp add: is_school_day_def)

lemma loop_overflow:
  "int (length out) < n \<Longrightarrow> next_day cur = Inl e \<Longrightarrow> next_school_days_loop n out cur = Inl e"
  by (subst next_school_days_loop.simps) simp

lemma next_day_ok:
  assumes "valid_date d" "toordinal d < toordinal date_max"
  obtains d' where "next_day d = Inr d'"
proof (cases "next_day d")
  case (Inl e)
  with assms next_day_Inl have "d = date_max" by blast
  with assms(2) show ?thesis by simp
next
  case (Inr d')
  then show ?thesis by (rule that)
qed

lemma loop_window:
  assumes "valid_date cur" "toordinal cur + k \<le> toordinal date_max"
    "int (length out) \<le> n"
    "n \<le> int (length out) + int (length (filter is_school_day (days_from cur k)))"
  shows "next_school_days_loop n out cur =
         Inr (out @ take (nat (n - int (length out))) (filter is_school_day (days_from cur k)))"
  using assms
proof (induction k arbitrary: out cur)
  case 0
  then show ?case by (simp add: loop_done)
next
  case (Suc k)
  show ?case
  proof (cases "int (length out) < n")
    case False
    with Suc.prems(3) have "n = int (length out)" by simp
    then show ?thesis by (simp add: loop_done)
  next
    case True
    from Suc.prems(1,2) obtain cur' where nd: "next_day cur = Inr cur'"
      by (auto elim!: next_day_ok)
    from next_day_Inr [OF Suc.prems(1) nd]
    have v': "valid_date cur'" and o': "toordinal cur' = toordinal cur + 1" by simp_all
    let ?out = "if is_school_day cur then out @ [cur] else out"
    have step: "next_school_days_loop n out cur = next_school_days_loop n ?out cur'"
      using True nd by (rule loop_step)
    have df: "days_from cur (Suc k) = cur # days_from cur' k" by (simp add: nd)
    have "next_school_days_loop n ?out cur' =
          Inr (?out @ take (nat (n - int (length ?out))) (filter is_school_day (days_from cur' k)))"
    proof (rule Suc.IH [OF v'])
      show "toordinal cur' + k \<le> toordinal date_max" using Suc.prems(2) o' by simp
      show "int (length ?out) \<le> n" using True by simp
      show "n \<le> int (length ?out) + int (length (filter is_school_day (days_from cur' k)))"
        using Suc.prems(4) unfolding df by (cases "is_school_day cur") simp_all
    qed
    moreover have "?out @ take (nat (n - int (length ?out))) (filter is_school_day (days_from cur' k))
      = out @ take (nat (n - int (length out))) (filter is_school_day (days_from cur (Suc k)))"
    proof (cases "is_school_day cur")
      case w: True
      from True obtain j where j: "nat (n - int (length out)) = Suc j"
        by (cases "nat (n - int (length out))") auto
      then have "nat (n - int (length (out @ [cur]))) = j" by simp
      with w j show ?thesis unfolding df by simp
    next
      case False
      then show ?thesis unfolding df by simp
    qed
    ultimately show ?thesis using step by simp
  qed
qed

lemma days_from_weekdays:
  assumes "valid_date d" "toordinal d + k \<le> toordinal date_max"
  shows "map weekday (days_from d k) = map (\<lambda>i. (weekday d + i) mod 7) [0..<k]"
  using assms
proof (induction k arbitrary: d)
  case 0
  then show ?case by simp
next
  case (Suc k)
  from Suc.prems obtain d' where nd: "next_day d = Inr d'"
    by (auto elim!: next_day_ok)
  from next_day_Inr [OF Suc.prems(1) nd]
  have v': "valid_date d'" and o': "toordinal d' = toordinal d + 1" by simp_all
  have w': "weekday d' = (weekday d + 1) mod 7"
    by (simp add: weekday_def o' mod_simps)
  have "map weekday (days_from d' k) = map (\<lambda>i. (weekday d' + i) mod 7) [0..<k]"
    using Suc.prems(2) o' by (intro Suc.IH [OF v']) simp
  also have "\<dots> = map (\<lambda>i. (weekday d + Suc i) mod 7) [0..<k]"
    by (simp add: w' mod_simps)
  finally have tl: "map weekday (days_from d' k) = map (\<lambda>i. (weekday d + Suc i) mod 7) [0..<k]" .
  have u: "[0..<Suc k] = 0 # map Suc [0..<k]"
    by (simp add: upt_conv_Cons map_Suc_upt del: upt_Suc)
  have w7: "weekday d mod 7 = weekday d" by (simp add: weekday_def)
  have "map weekday (days_from d (Suc k)) = weekday d # map weekday (days_from d' k)"
    by (simp add: nd)
  also have "\<dots> = map (\<lambda>i. (weekday d + i) mod 7) [0..<Suc k]"
    unfolding u tl by (simp add: w7 comp_def)
  finally show ?case .
qed

lemma length_days_from:
  assumes "valid_date d" "toordinal d + k \<le> toordinal date_max"
  shows "length (days_from d k) = k"
  using days_from_weekdays [OF assms] by (metis length_map length_upt diff_zero)

lemma weekday_less_7: "weekday d < 7"
  by (simp add: weekday_def)

lemma upt_7: "[0..<7] = [0, 1, 2, 3, 4, 5, 6]"
  by (simp add: upt_rec)

lemma week_weekdays:
  assumes "valid_date d" "toordinal d + 7 \<le> toordinal date_max"
  shows "map weekday (days_from d 7) =
         [weekday d mod 7, (weekday d + 1) mod 7, (weekday d + 2) mod 7, (weekday d + 3) mod 7,
          (weekday d + 4) mod 7, (weekday d + 5) mod 7, (weekday d + 6) mod 7]"
  using days_from_weekdays [OF assms] by (simp add: upt_7)

lemma length_filter_map: "length (filter (\<lambda>x. P (f x)) xs) = length (filter P (map f xs))"
  by (induction xs) auto

lemma week_has_five:
  assumes "valid_date d" "toordinal d + 7 \<le> toordinal date_max"
  shows "length (filter is_school_day (days_from d 7)) = 5"
proof -
  have "weekday d < 7" by (rule weekday_less_7)
  then have w: "weekday d = 0 \<or> weekday d = 1 \<or> weekday d = 2 \<or> weekday d = 3 \<or> weekday d = 4 \<or>
    weekday d = 5 \<or> weekday d = 6" by arith
  have "length (filter is_school_day (days_from d 7)) =
        length (filter (\<lambda>w. w < 5) (map weekday (days_from d 7)))"
    unfolding is_school_day_def by (rule length_filter_map)
  also have "\<dots> = 5"
    unfolding week_weekdays [OF assms] using w by (elim disjE) simp_all
  finally show ?thesis .
qed


lemma saturday_week:
  assumes "valid_date d" "toordinal d + 7 \<le> toordinal date_max" "weekday d = 5"
  shows "filter is_school_day (days_from d 7) = drop 2 (days_from d 7) \<and>
         map weekday (drop 2 (days_from d 7)) = [0, 1, 2, 3, 4]"
proof -
  have "map weekday (days_from d 7) = [5, 6, 0, 1, 2, 3, 4]"
    unfolding week_weekdays [OF assms(1,2)] by (simp add: assms(3))
  then obtain a b c e f g h where ds: "days_from d 7 = [a, b, c, e, f, g, h]"
    and w: "weekday a = 5" "weekday b = 6" "weekday c = 0" "weekday e = 1" "weekday f = 2"
      "weekday g = 3" "weekday h = 4"
    by (auto simp: map_eq_Cons_conv)
  show ?thesis unfolding ds by (simp add: is_school_day_def w)
qed

text \<open>
  Claim C7: for \<open>n\<close> from 1 to 5, \<open>_next_school_days\<close> returns exactly \<open>n\<close> dates: the first
  \<open>n\<close> Monday-to-Friday dates met when walking from today, today included, one day at a
  time (seven days always hold five of them).  When today is a Saturday and \<open>n\<close> is 5
  these are the five days after the weekend, Monday to Friday.  Today is a calendar
  date at least a week before 9999-12-31, the last date the program can represent.
\<close>

theorem next_school_days_window:
  assumes "valid_date today" "toordinal today + 7 \<le> toordinal date_max" "1 \<le> n" "n \<le> 5"
  shows "\<exists>ds. next_school_days today n = Inr ds \<and> int (length ds) = n \<and>
              ds = take (nat n) (filter is_school_day (days_from today 7)) \<and>
              list_all (\<lambda>d. weekday d < 5) ds \<and>
              (weekday today = 5 \<and> n = 5 \<longrightarrow>
                 ds = drop 2 (days_from today 7) \<and> map weekday ds = [0, 1, 2, 3, 4])"
proof -
  let ?w = "filter is_school_day (days_from today 7)"
  have five: "length ?w = 5" by (rule week_has_five [OF assms(1,2)])
  have "next_school_days today n = Inr ([] @ take (nat (n - int (length ([]::date list)))) ?w)"
    unfolding next_school_days_def
    using assms(3,4) by (intro loop_window [OF assms(1,2)]) (simp_all add: five)
  then have run: "next_school_days today n = Inr (take (nat n) ?w)" by simp
  have len: "int (length (take (nat n) ?w)) = n" using assms(3,4) by (simp add: five)
  have wk: "list_all (\<lambda>d. weekday d < 5) (take (nat n) ?w)"
    unfolding list_all_iff by (auto dest!: in_set_takeD simp: is_school_day_def)
  have sat: "weekday today = 5 \<and> n = 5 \<longrightarrow>
      take (nat n) ?w = drop 2 (days_from today 7) \<and> map weekday (take (nat n) ?w) = [0, 1, 2, 3, 4]"
  proof (intro impI, elim conjE)
    assume s: "weekday today = 5" and n5: "n = 5"
    from five n5 have "take (nat n) ?w = ?w" by simp
    with saturday_week [OF assms(1,2) s] show
      "take (nat n) ?w = drop 2 (days_from today 7) \<and> map weekday (take (nat n) ?w) = [0, 1, 2, 3, 4]"
      by simp
  qed
  show ?thesis
    by (rule exI [of _ "take (nat n) ?w"]) (intro conjI run len wk sat refl)
qed

lemma toordinal_2024_06_08: "toordinal \<lparr> year = 2024, month = 6, day = 8 \<rparr> = 739045"
  by (simp add: toordinal_def days_before_year_def days_before_month_def DAYS_BEFORE_MONTH_def
      is_leap_def)

theorem next_school_days_window_witness:
  "\<exists>ds. next_school_days \<lparr> year = 2024, month = 6, day = 8 \<rparr> 5 = Inr ds \<and> int (length ds) = 5 \<and>
        map weekday ds = [0, 1, 2, 3, 4]"
proof -
  let ?t = "\<lparr> year = 2024, month = 6, day = 8 \<rparr>"
  have v: "valid_date ?t" by (simp add: valid_date_def days_in_month_def MAXYEAR_def)
  have h: "toordinal ?t + 7 \<le> toordinal date_max"
    unfolding toordinal_2024_06_08 toordinal_date_max by simp
  have s: "weekday ?t = 5" unfolding weekday_def toordinal_2024_06_08 by simp
  have n1: "(1::int) \<le> 5" and n5: "(5::int) \<le> 5" by simp_all
  from next_school_days_window [OF v h n1 n5]
  obtain ds where c: "next_school_days ?t 5 = Inr ds \<and> int (length ds) = 5 \<and>
      ds = take (nat 5) (filter is_school_day (days_from ?t 7)) \<and>
      list_all (\<lambda>d. weekday d < 5) ds \<and>
      (weekday ?t = 5 \<and> (5::int) = 5 \<longrightarrow>
         ds = drop 2 (days_from ?t 7) \<and> map weekday ds = [0, 1, 2, 3, 4])" ..
  from c have r: "next_school_days ?t 5 = Inr ds" by (rule conjunct1)
  from c have l: "int (length ds) = 5" by (rule conjunct1 [OF conjunct2])
  from c have i: "weekday ?t = 5 \<and> (5::int) = 5 \<longrightarrow>
      ds = drop 2 (days_from ?t 7) \<and> map weekday ds = [0, 1, 2, 3, 4]"
    by (rule conjunct2 [OF conjunct2 [OF conjunct2 [OF conjunct2]]])
  from s have "weekday ?t = 5 \<and> (5::int) = 5" by (intro conjI refl)
  with i have "ds = drop 2 (days_from ?t 7) \<and> map weekday ds = [0, 1, 2, 3, 4]" by (rule mp)
  then have "map weekday ds = [0, 1, 2, 3, 4]" by (rule conjunct2)
  with r l show ?thesis by (intro exI [of _ ds] conjI)
qed

section \<open>The text of a date\<close>

lemma digit_cases:
  "(k::nat) < 10 \<Longrightarrow>
   k = 0 \<or> k = 1 \<or> k = 2 \<or> k = 3 \<or> k = 4 \<or> k = 5 \<or> k = 6 \<or> k = 7 \<or> k = 8 \<or> k = 9"
  by arith

lemma digit_val_char_of: "k < 10 \<Longrightarrow> digit_val (digit_char k) = k"
  by (drule digit_cases) (elim disjE; simp add: digit_val_def digit_char_def)

lemma digits_value_snoc: "digits_value (s @ [c]) = 10 * digits_value s + digit_val c"
  by (simp add: digits_value_def)

lemma digits_value_dec: "digits_value (dec n) = n"
proof (induction n rule: dec.induct)
  case (1 n)
  show ?case
  proof (cases "n < 10")
    case True
    then show ?thesis
      by (subst dec.simps) (simp add: digits_value_def digit_val_char_of)
  next
    case False
    with 1 have "digits_value (dec (n div 10)) = n div 10" by simp
    with False show ?thesis
      by (subst dec.simps) (simp add: digits_value_snoc digit_val_char_of)
  qed
qed

lemma digits_value_zeros: "digits_value (replicate k CHR ''0'' @ s) = digits_value s"
proof (induction k)
  case 0
  then show ?case by simp
next
  case (Suc k)
  have "foldl (\<lambda>a c. 10 * a + digit_val c) 0 (CHR ''0'' # replicate k CHR ''0'' @ s) =
        foldl (\<lambda>a c. 10 * a + digit_val c) 0 (replicate k CHR ''0'' @ s)"
    by (simp add: digit_val_def)
  with Suc show ?case by (simp add: digits_value_def)
qed

lemma digits_value_zero_pad: "digits_value (zero_pad w (dec n)) = n"
  by (simp add: zero_pad_def digits_value_zeros digits_value_dec)

lemma zero_pad_dec_inj: "zero_pad w (dec m) = zero_pad w (dec n) \<Longrightarrow> m = n"
  by (metis digits_value_zero_pad)

lemma char_of_digit: "k < 10 \<Longrightarrow> is_digit (digit_char k)"
  unfolding is_digit_def digit_char_def by (rule nth_mem) simp

lemma dec_digits: "c \<in> set (dec n) \<Longrightarrow> is_digit c"
proof (induction n arbitrary: c rule: dec.induct)
  case (1 n)
  show ?case
  proof (cases "n < 10")
    case True
    with "1.prems" have "c = digit_char n" by (subst (asm) dec.simps) simp
    with True show ?thesis by (simp add: char_of_digit)
  next
    case False
    with "1.prems" have "c \<in> set (dec (n div 10)) \<or> c = digit_char (n mod 10)"
      by (subst (asm) dec.simps) auto
    with 1 False show ?thesis by (auto simp: char_of_digit)
  qed
qed

lemma zero_pad_digits: "c \<in> set (zero_pad w (dec n)) \<Longrightarrow> is_digit c"
proof -
  have z: "is_digit CHR ''0''" by (simp add: is_digit_def)
  assume "c \<in> set (zero_pad w (dec n))"
  then have "c = CHR ''0'' \<or> c \<in> set (dec n)" by (auto simp: zero_pad_def)
  with z show ?thesis by (auto simp: dec_digits)
qed

lemma no_dash: "CHR ''-'' \<notin> set (zero_pad w (dec n))"
proof
  assume "CHR ''-'' \<in> set (zero_pad w (dec n))"
  then have "is_digit CHR ''-''" by (rule zero_pad_digits)
  then show False by (simp add: is_digit_def)
qed

lemma split_at_dash:
  "CHR ''-'' \<notin> set xs \<Longrightarrow> CHR ''-'' \<notin> set ys \<Longrightarrow>
   xs @ CHR ''-'' # xs' = ys @ CHR ''-'' # ys' \<Longrightarrow> xs = ys \<and> xs' = ys'"
  by (induction xs arbitrary: ys) (auto simp: Cons_eq_append_conv append_eq_Cons_conv)

lemma isoformat_inj: "isoformat a = isoformat b \<Longrightarrow> a = b"
proof -
  assume "isoformat a = isoformat b"
  then have e: "zero_pad 4 (dec (year a)) @ CHR ''-'' #
          (zero_pad 2 (dec (month a)) @ CHR ''-'' # zero_pad 2 (dec (day a))) =
        zero_pad 4 (dec (year b)) @ CHR ''-'' #
          (zero_pad 2 (dec (month b)) @ CHR ''-'' # zero_pad 2 (dec (day b)))"
    by (simp add: isoformat_def)
  from split_at_dash [OF no_dash no_dash e]
  have y: "zero_pad 4 (dec (year a)) = zero_pad 4 (dec (year b))"
    and r: "zero_pad 2 (dec (month a)) @ CHR ''-'' # zero_pad 2 (dec (day a)) =
            zero_pad 2 (dec (month b)) @ CHR ''-'' # zero_pad 2 (dec (day b))"
    by simp_all
  from split_at_dash [OF no_dash no_dash r]
  have m: "zero_pad 2 (dec (month a)) = zero_pad 2 (dec (month b))"
    and d: "zero_pad 2 (dec (day a)) = zero_pad 2 (dec (day b))"
    by simp_all
  from y m d have "year a = year b" "month a = month b" "day a = day b"
    by (auto dest: zero_pad_dec_inj)
  then show ?thesis by simp
qed

section \<open>Dictionaries and the selection of the window\<close>

lemma date_less_next_day: "next_day d = Inr d' \<Longrightarrow> date_less d d'"
  by (auto simp: next_day_def date_less_def split: if_splits)

lemma date_less_trans: "date_less a b \<Longrightarrow> date_less b c \<Longrightarrow> date_less a c"
  by (auto simp: date_less_def)

lemma date_less_irrefl: "\<not> date_less a a"
  by (simp add: date_less_def)

lemma date_ge_step: "date_ge a t \<Longrightarrow> date_less a b \<Longrightarrow> date_ge b t"
  by (auto simp: date_ge_def date_less_def)

lemma date_ge_refl: "date_ge a a"
  by (simp add: date_ge_def date_less_def)

lemma map_of_dict_set: "map_of (dict_set d k v) k' = (if k' = k then Some v else map_of d k')"
  by (induction d k v rule: dict_set.induct) auto

lemma keys_dict_set:
  "map fst (dict_set d k v) = (if k \<in> set (map fst d) then map fst d else map fst d @ [k])"
  by (induction d k v rule: dict_set.induct) auto

lemma set_dict_set:
  "(k', v') \<in> set (dict_set d k v) \<Longrightarrow> (k' = k \<and> v' = v) \<or> (k', v') \<in> set d"
  by (induction d k v rule: dict_set.induct) (auto split: if_splits)

lemma distinct_dict_set: "distinct (map fst d) \<Longrightarrow> distinct (map fst (dict_set d k v))"
  by (simp add: keys_dict_set)

lemma select_day_entry:
  "select_day ok items today m d = dict_set m (isoformat d) (day_entry ok items today d)"
  by (auto simp: select_day_def day_entry_def Let_def split: option.splits)

lemma select_window_keys:
  assumes "distinct ds" "set (map isoformat ds) \<inter> set (map fst acc) = {}"
  shows "map fst (foldl (select_day ok items today) acc ds) = map fst acc @ map isoformat ds"
  using assms
proof (induction ds arbitrary: acc)
  case Nil
  then show ?case by simp
next
  case (Cons d ds)
  have k: "map fst (select_day ok items today acc d) = map fst acc @ [isoformat d]"
    using Cons.prems(2) by (auto simp: select_day_entry keys_dict_set)
  have "set (map isoformat ds) \<inter> set (map fst (select_day ok items today acc d)) = {}"
    unfolding k using Cons.prems by (auto dest: isoformat_inj)
  with Cons.IH [of "select_day ok items today acc d"] Cons.prems(1) k show ?case by simp
qed

lemma select_window_lookup:
  "map_of (foldl (select_day ok items today) acc ds) (isoformat d) =
   (if d \<in> set ds then Some (day_entry ok items today d) else map_of acc (isoformat d))"
proof (induction ds arbitrary: d rule: rev_induct)
  case Nil
  then show ?case by simp
next
  case (snoc x xs)
  show ?case
    using snoc [of d]
    by (auto simp: select_day_entry map_of_dict_set dest: isoformat_inj)
qed

lemma select_window_values:
  "(k, v) \<in> set (foldl (select_day ok items today) acc ds) \<Longrightarrow>
   (k, v) \<in> set acc \<or> (\<exists>d \<in> set ds. k = isoformat d \<and> v = day_entry ok items today d)"
proof (induction ds arbitrary: k v rule: rev_induct)
  case Nil
  then show ?case by simp
next
  case (snoc x xs)
  from snoc.prems
  have "(k, v) \<in> set (select_day ok items today (foldl (select_day ok items today) acc xs) x)"
    by simp
  then have "(k = isoformat x \<and> v = day_entry ok items today x) \<or>
      (k, v) \<in> set (foldl (select_day ok items today) acc xs)"
    unfolding select_day_entry [of _ _ _ _ x] by (rule set_dict_set)
  with snoc.IH [of k v] show ?case by auto
qed

lemma sorted_wrt_date_less_distinct: "sorted_wrt date_less ds \<Longrightarrow> distinct ds"
  by (induction ds) (auto simp: date_less_irrefl)

lemma loop_invariant:
  assumes "next_school_days_loop n out cur = Inr ds"
    "sorted_wrt date_less out" "\<forall>d\<in>set out. date_less d cur"
    "\<forall>d\<in>set out. date_ge d t" "date_ge cur t"
  shows "sorted_wrt date_less ds \<and> (\<forall>d\<in>set ds. date_ge d t)"
  using assms
proof (induction n out cur rule: next_school_days_loop.induct)
  case (1 n out cur)
  show ?case
  proof (cases "int (length out) < n")
    case False
    with "1.prems" show ?thesis by (simp add: loop_done)
  next
    case True
    show ?thesis
    proof (cases "next_day cur")
      case (Inl e)
      with True "1.prems"(1) show ?thesis by (simp add: loop_overflow)
    next
      case (Inr cur')
      let ?out = "if is_school_day cur then out @ [cur] else out"
      have lt: "date_less cur cur'" using Inr by (rule date_less_next_day)
      have run: "next_school_days_loop n (if weekday cur < 5 then out @ [cur] else out) cur' = Inr ds"
        using "1.prems"(1) loop_step [OF True Inr] by (simp add: is_school_day_def)
      show ?thesis
      proof (rule "1.IH" [OF True Inr run])
        show "sorted_wrt date_less (if weekday cur < 5 then out @ [cur] else out)"
          using "1.prems"(2,3) by (simp add: sorted_wrt_append)
        show "\<forall>d\<in>set (if weekday cur < 5 then out @ [cur] else out). date_less d cur'"
          using "1.prems"(3) lt by (auto intro: date_less_trans)
        show "\<forall>d\<in>set (if weekday cur < 5 then out @ [cur] else out). date_ge d t"
          using "1.prems"(4,5) by auto
        show "date_ge cur' t" using "1.prems"(5) lt by (rule date_ge_step)
      qed
    qed
  qed
qed

lemma next_school_days_sorted:
  assumes "next_school_days today n = Inr ds"
  shows "sorted_wrt date_less ds \<and> (\<forall>d\<in>set ds. date_ge d today)"
  using assms unfolding next_school_days_def
  by (rule loop_invariant) (simp_all add: date_ge_refl)

section \<open>The entries of the window\<close>

lemma parse_days_range: "1 \<le> parse_days s \<and> parse_days s \<le> 5"
  by (simp add: parse_days_def MIN_DAYS_def MAX_DAYS_def Let_def)

lemma parse_settings_days:
  "parse_settings s = Inr cfg \<Longrightarrow> days cfg = parse_days s"
  by (auto simp: parse_settings_def Let_def split: if_splits)

lemma generate_image_failed:
  assumes "parse_settings s = Inr cfg"
    "fetch_menu_items p today (district_id cfg) (school_id cfg) (menu_name cfg) ''website'' = Inl e"
    "next_school_days today (days cfg) = Inr tds"
  shows "generate_image p today s =
         Inr (False, select_window False [(isoformat today, [''Menu not available''])] today tds)"
  using assms by (simp add: generate_image_def)

lemma generate_image_fetched:
  assumes "parse_settings s = Inr cfg"
    "fetch_menu_items p today (district_id cfg) (school_id cfg) (menu_name cfg) ''website'' = Inr items"
    "next_school_days today (days cfg) = Inr tds"
  shows "generate_image p today s = Inr (True, select_window True items today tds)"
  using assms by (simp add: generate_image_def)

lemma window_keys:
  assumes "next_school_days today n = Inr tds"
  shows "map fst (select_window ok items today tds) = map isoformat tds"
proof -
  from next_school_days_sorted [OF assms] have "distinct tds"
    by (simp add: sorted_wrt_date_less_distinct)
  then show ?thesis
    unfolding select_window_def using select_window_keys [of tds "[]" ok items today] by simp
qed

lemma window_lookup:
  "d \<in> set tds \<Longrightarrow>
   map_of (select_window ok items today tds) (isoformat d) = Some (day_entry ok items today d)"
  unfolding select_window_def by (simp add: select_window_lookup)

lemma failed_entry:
  "day_entry False [(isoformat today, [''Menu not available''])] today d =
   (if d = today then [''Menu not available''] else [])"
  by (auto simp: day_entry_def dest: isoformat_inj)

lemma loop_suffix:
  assumes "next_school_days_loop n out cur = Inr ds"
  shows "\<exists>rest. ds = out @ rest \<and> (\<forall>d\<in>set rest. date_ge d cur)"
  using assms
proof (induction n out cur rule: next_school_days_loop.induct)
  case (1 n out cur)
  show ?case
  proof (cases "int (length out) < n")
    case False
    with "1.prems" show ?thesis by (simp add: loop_done)
  next
    case True
    show ?thesis
    proof (cases "next_day cur")
      case (Inl e)
      with True "1.prems" show ?thesis by (simp add: loop_overflow)
    next
      case (Inr cur')
      have lt: "date_less cur cur'" using Inr by (rule date_less_next_day)
      have run: "next_school_days_loop n (if weekday cur < 5 then out @ [cur] else out) cur' = Inr ds"
        using "1.prems" loop_step [OF True Inr] by (simp add: is_school_day_def)
      from "1.IH" [OF True Inr run] obtain rest
        where r: "ds = (if weekday cur < 5 then out @ [cur] else out) @ rest"
          and g: "\<forall>d\<in>set rest. date_ge d cur'" by blast
      have g': "\<forall>d\<in>set rest. date_ge d cur"
        using g lt by (auto simp: date_ge_def date_less_def)
      show ?thesis
      proof (cases "weekday cur < 5")
        case True
        with r have "ds = out @ (cur # rest)" by simp
        moreover have "\<forall>d\<in>set (cur # rest). date_ge d cur" using g' by (simp add: date_ge_refl)
        ultimately show ?thesis by blast
      next
        case False
        with r g' show ?thesis by auto
      qed
    qed
  qed
qed

lemma today_selected:
  assumes "next_school_days today n = Inr ds" "1 \<le> n"
  shows "today \<in> set ds \<longleftrightarrow> weekday today < 5"
proof -
  have lt: "int (length ([]::date list)) < n" using assms(2) by simp
  show ?thesis
  proof (cases "next_day today")
    case (Inl e)
    with assms(1) lt show ?thesis by (simp add: next_school_days_def loop_overflow)
  next
    case (Inr cur')
    have less: "date_less today cur'" using Inr by (rule date_less_next_day)
    from assms(1) loop_step [OF lt Inr]
    have "next_school_days_loop n (if is_school_day today then [] @ [today] else []) cur' = Inr ds"
      by (simp add: next_school_days_def)
    from loop_suffix [OF this] obtain rest
      where r: "ds = (if is_school_day today then [] @ [today] else []) @ rest"
        and g: "\<forall>d\<in>set rest. date_ge d cur'" by blast
    have "today \<notin> set rest"
    proof
      assume "today \<in> set rest"
      with g have "date_ge today cur'" by blast
      with less show False by (simp add: date_ge_def)
    qed
    with r show ?thesis by (auto simp: is_school_day_def)
  qed
qed

section \<open>A failed fetch\<close>

lemmas calendar_eval =
  next_school_days_def next_school_days_loop.simps next_day_def days_in_month_def is_leap_def
  weekday_def toordinal_def days_before_year_def days_before_month_def DAYS_BEFORE_MONTH_def
  MAXYEAR_def

lemma iso_2024_06_10: "isoformat \<lparr> year = 2024, month = 6, day = 10 \<rparr> = ''2024-06-10''"
  by code_simp

lemma iso_2024_06_11: "isoformat \<lparr> year = 2024, month = 6, day = 11 \<rparr> = ''2024-06-11''"
  by code_simp

lemma parse_example:
  "parse_settings [''districtId'' \<mapsto> ''1212'', ''schoolId'' \<mapsto> ''894'', ''menuName'' \<mapsto> ''Lunch'',
                   ''numDays'' \<mapsto> ''2''] =
   Inr \<lparr> district_id = ''1212'', school_id = ''894'', menu_name = ''Lunch'', days = 2,
         title = ''School Lunch Menu'', show_date = True, font_scale = 1,
         primary_color = ''#323296'', text_color = ''#000000'', background_color = ''#ffffff'',
         show_timestamp = True \<rparr>"
  by code_simp

text \<open>
  Claim C2 as the specification has it: after a failed fetch every selected day,
  today included, would map to the empty list.  On Monday 2024-06-10, with a provider
  that fails, today maps to the text "Menu not available".
\<close>

theorem fetch_failure_today_counterexample:
  "fetch_menu_items
     \<lparr> organization_sites = \<lambda>_. Inl HTTPError, menuTypes = \<lambda>_ _. Inl HTTPError,
       menu_items = \<lambda>_ _ _. Inl HTTPError \<rparr>
     \<lparr> year = 2024, month = 6, day = 10 \<rparr> ''1212'' ''894'' ''Lunch'' ''website'' = Inl HTTPError \<and>
   generate_image
     \<lparr> organization_sites = \<lambda>_. Inl HTTPError, menuTypes = \<lambda>_ _. Inl HTTPError,
       menu_items = \<lambda>_ _ _. Inl HTTPError \<rparr>
     \<lparr> year = 2024, month = 6, day = 10 \<rparr>
     [''districtId'' \<mapsto> ''1212'', ''schoolId'' \<mapsto> ''894'', ''menuName'' \<mapsto> ''Lunch'',
      ''numDays'' \<mapsto> ''2'']
   = Inr (False, [(''2024-06-10'', [''Menu not available'']), (''2024-06-11'', [])])"
proof -
  let ?p = "\<lparr> organization_sites = \<lambda>_. Inl HTTPError, menuTypes = \<lambda>_ _. Inl HTTPError,
       menu_items = \<lambda>_ _ _. Inl HTTPError \<rparr>"
  let ?t = "\<lparr> year = 2024, month = 6, day = 10 \<rparr>"
  have f: "fetch_menu_items ?p ?t ''1212'' ''894'' ''Lunch'' ''website'' = Inl HTTPError"
    by (simp add: fetch_menu_items_def validate_site_in_district_def)
  have n: "next_school_days ?t 2 = Inr [?t, \<lparr> year = 2024, month = 6, day = 11 \<rparr>]"
    by (simp add: calendar_eval)
  have w: "select_window False [(isoformat ?t, [''Menu not available''])] ?t
             [?t, \<lparr> year = 2024, month = 6, day = 11 \<rparr>] =
           [(''2024-06-10'', [''Menu not available'']), (''2024-06-11'', [])]"
    by (simp add: select_window_def select_day_def iso_2024_06_10 iso_2024_06_11)
  show ?thesis
    using f n w by (simp add: generate_image_def parse_example)
qed


text \<open>
  Claim C2, amended: when the fetch fails, every selected school day other than today
  maps to the empty list, and today, which is selected exactly when it is a Monday to
  Friday, maps to the one-element list "Menu not available", the fallback the handler
  stores under today's date.  No day maps to the pending placeholder.
\<close>

theorem fetch_failure_menu:
  assumes p: "parse_settings s = Inr cfg"
    and f: "fetch_menu_items p today (district_id cfg) (school_id cfg) (menu_name cfg) ''website''
            = Inl e"
    and n: "next_school_days today (days cfg) = Inr target_days"
  shows "\<exists>menu_subset.
           generate_image p today s = Inr (False, menu_subset) \<and>
           map fst menu_subset = map isoformat target_days \<and>
           (\<forall>d\<in>set target_days.
              map_of menu_subset (isoformat d) =
              Some (if d = today then [''Menu not available''] else [])) \<and>
           (today \<in> set target_days \<longleftrightarrow> weekday today < 5)"
proof -
  let ?m = "select_window False [(isoformat today, [''Menu not available''])] today target_days"
  have g: "generate_image p today s = Inr (False, ?m)"
    using p f n by (rule generate_image_failed)
  have k: "map fst ?m = map isoformat target_days"
    using n by (rule window_keys)
  have v: "\<forall>d\<in>set target_days.
      map_of ?m (isoformat d) = Some (if d = today then [''Menu not available''] else [])"
    by (simp add: window_lookup failed_entry)
  have "1 \<le> days cfg"
    using parse_settings_days [OF p] parse_days_range [of s] by simp
  with n have t: "today \<in> set target_days \<longleftrightarrow> weekday today < 5"
    by (rule today_selected)
  show ?thesis
    by (rule exI [of _ ?m]) (intro conjI g k v t)
qed

theorem fetch_failure_menu_witness:
  "\<exists>menu_subset.
     generate_image
       \<lparr> organization_sites = \<lambda>_. Inl HTTPError, menuTypes = \<lambda>_ _. Inl HTTPError,
         menu_items = \<lambda>_ _ _. Inl HTTPError \<rparr>
       \<lparr> year = 2024, month = 6, day = 10 \<rparr>
       [''districtId'' \<mapsto> ''1212'', ''schoolId'' \<mapsto> ''894'', ''menuName'' \<mapsto> ''Lunch'',
        ''numDays'' \<mapsto> ''2'']
     = Inr (False, menu_subset) \<and>
     map_of menu_subset (isoformat \<lparr> year = 2024, month = 6, day = 11 \<rparr>) = Some []"
proof -
  let ?p = "\<lparr> organization_sites = \<lambda>_. Inl HTTPError, menuTypes = \<lambda>_ _. Inl HTTPError,
       menu_items = \<lambda>_ _ _. Inl HTTPError \<rparr>"
  let ?t = "\<lparr> year = 2024, month = 6, day = 10 \<rparr>"
  let ?u = "\<lparr> year = 2024, month = 6, day = 11 \<rparr>"
  let ?cfg = "\<lparr> district_id = ''1212'', school_id = ''894'', menu_name = ''Lunch'', days = 2,
         title = ''School Lunch Menu'', show_date = True, font_scale = 1,
         primary_color = ''#323296'', text_color = ''#000000'', background_color = ''#ffffff'',
         show_timestamp = True \<rparr>"
  have f: "fetch_menu_items ?p ?t (district_id ?cfg) (school_id ?cfg) (menu_name ?cfg) ''website''
           = Inl HTTPError"
    by (simp add: fetch_menu_items_def validate_site_in_district_def)
  have n: "next_school_days ?t (days ?cfg) = Inr [?t, ?u]"
    by (simp add: calendar_eval)
  from fetch_failure_menu [OF parse_example f n]
  obtain m where c: "generate_image ?p ?t
       [''districtId'' \<mapsto> ''1212'', ''schoolId'' \<mapsto> ''894'', ''menuName'' \<mapsto> ''Lunch'',
        ''numDays'' \<mapsto> ''2''] = Inr (False, m) \<and>
      map fst m = map isoformat [?t, ?u] \<and>
      (\<forall>d\<in>set [?t, ?u].
         map_of m (isoformat d) = Some (if d = ?t then [''Menu not available''] else [])) \<and>
      (?t \<in> set [?t, ?u] \<longleftrightarrow> weekday ?t < 5)" ..
  from c have g: "generate_image ?p ?t
       [''districtId'' \<mapsto> ''1212'', ''schoolId'' \<mapsto> ''894'', ''menuName'' \<mapsto> ''Lunch'',
        ''numDays'' \<mapsto> ''2''] = Inr (False, m)" by (rule conjunct1)
  from c have "\<forall>d\<in>set [?t, ?u].
         map_of m (isoformat d) = Some (if d = ?t then [''Menu not available''] else [])"
    by (rule conjunct1 [OF conjunct2 [OF conjunct2]])
  then have "map_of m (isoformat ?u) = Some []" by simp
  with g show ?thesis by (intro exI [of _ m] conjI)
qed

section \<open>Selected days and the pending placeholder\<close>

lemma next_school_days_total:
  assumes "valid_date today" "toordinal today + 7 \<le> toordinal date_max" "1 \<le> n" "n \<le> 5"
  shows "\<exists>ds. next_school_days today n = Inr ds \<and> int (length ds) = n"
proof -
  let ?w = "filter is_school_day (days_from today 7)"
  have five: "length ?w = 5" by (rule week_has_five [OF assms(1,2)])
  have "next_school_days today n = Inr ([] @ take (nat (n - int (length ([]::date list)))) ?w)"
    unfolding next_school_days_def
    using assms(3,4) by (intro loop_window [OF assms(1,2)]) (simp_all add: five)
  then have run: "next_school_days today n = Inr (take (nat n) ?w)" by simp
  have len: "int (length (take (nat n) ?w)) = n" using assms(3,4) by (simp add: five)
  show ?thesis by (rule exI [of _ "take (nat n) ?w"]) (intro conjI run len)
qed

text \<open>
  Claim C10: every date \<open>_next_school_days\<close> returns is today or later, so the test
  "today or later" in the loop of \<open>generate_image\<close> holds for every selected day.  Hence,
  after a fetch that succeeded, a selected day missing from the fetched mapping gets
  the pending placeholder; and a selected day that is missing and gets the empty list
  tells that the fetch failed.
\<close>

theorem selected_days_not_before_today:
  assumes "next_school_days today n = Inr target_days"
  shows "(\<forall>d\<in>set target_days. date_ge d today) \<and>
         (\<forall>d\<in>set target_days.
            map_of all_items (isoformat d) = None \<longrightarrow>
            map_of (select_window True all_items today target_days) (isoformat d)
              = Some [PENDING_TEXT]) \<and>
         (\<forall>d\<in>set target_days.
            map_of all_items (isoformat d) = None \<longrightarrow>
            map_of (select_window fetch_ok all_items today target_days) (isoformat d) = Some [] \<longrightarrow>
            \<not> fetch_ok)"
proof -
  from next_school_days_sorted [OF assms]
  have ge: "\<forall>d\<in>set target_days. date_ge d today" by simp
  have pend: "\<forall>d\<in>set target_days.
            map_of all_items (isoformat d) = None \<longrightarrow>
            map_of (select_window True all_items today target_days) (isoformat d)
              = Some [PENDING_TEXT]"
    using ge by (simp add: window_lookup day_entry_def)
  have empty: "\<forall>d\<in>set target_days.
            map_of all_items (isoformat d) = None \<longrightarrow>
            map_of (select_window fetch_ok all_items today target_days) (isoformat d) = Some [] \<longrightarrow>
            \<not> fetch_ok"
    using ge by (auto simp: window_lookup day_entry_def PENDING_TEXT_def)
  from ge pend empty show ?thesis by (intro conjI)
qed

theorem selected_days_not_before_today_witness:
  "date_ge \<lparr> year = 2024, month = 6, day = 10 \<rparr> \<lparr> year = 2024, month = 6, day = 8 \<rparr> \<and>
   map_of (select_window True [] \<lparr> year = 2024, month = 6, day = 8 \<rparr>
             [\<lparr> year = 2024, month = 6, day = 10 \<rparr>, \<lparr> year = 2024, month = 6, day = 11 \<rparr>])
          (isoformat \<lparr> year = 2024, month = 6, day = 10 \<rparr>) = Some [PENDING_TEXT]"
proof -
  let ?t = "\<lparr> year = 2024, month = 6, day = 8 \<rparr>"
  let ?a = "\<lparr> year = 2024, month = 6, day = 10 \<rparr>"
  let ?b = "\<lparr> year = 2024, month = 6, day = 11 \<rparr>"
  have n: "next_school_days ?t 2 = Inr [?a, ?b]" by (simp add: calendar_eval)
  have a: "?a \<in> set [?a, ?b]" by simp
  note c = selected_days_not_before_today [OF n, of "[]" True]
  from c have "\<forall>d\<in>set [?a, ?b]. date_ge d ?t" by (rule conjunct1)
  then have g: "date_ge ?a ?t" using a by (rule bspec)
  from c have "map_of (select_window True [] ?t [?a, ?b]) (isoformat ?a) = Some [PENDING_TEXT]"
    by simp
  with g show ?thesis by (intro conjI)
qed

section \<open>The keys and values of the mapping\<close>

lemma iso_2024_06_12: "isoformat \<lparr> year = 2024, month = 6, day = 12 \<rparr> = ''2024-06-12''"
  by code_simp

lemma parse_example_one_day:
  "parse_settings [''districtId'' \<mapsto> ''1212'', ''schoolId'' \<mapsto> ''894'', ''menuName'' \<mapsto> ''Lunch'',
                   ''numDays'' \<mapsto> ''1''] =
   Inr \<lparr> district_id = ''1212'', school_id = ''894'', menu_name = ''Lunch'', days = 1,
         title = ''School Lunch Menu'', show_date = True, font_scale = 1,
         primary_color = ''#323296'', text_color = ''#000000'', background_color = ''#ffffff'',
         show_timestamp = True \<rparr>"
  by code_simp

text \<open>
  Claim C9 as the specification has it: every value of the mapping would be the
  fetched list of its date, the pending placeholder or the empty list.  On Wednesday
  2024-06-12, with one day asked for and a provider that fails, the only value is the
  text "Menu not available": nothing was fetched, and it is neither the placeholder
  nor empty.
\<close>

theorem menu_subset_unavailable_counterexample:
  "fetch_menu_items
     \<lparr> organization_sites = \<lambda>_. Inl GraphQLError, menuTypes = \<lambda>_ _. Inl GraphQLError,
       menu_items = \<lambda>_ _ _. Inl GraphQLError \<rparr>
     \<lparr> year = 2024, month = 6, day = 12 \<rparr> ''1212'' ''894'' ''Lunch'' ''website''
     = Inl GraphQLError \<and>
   generate_image
     \<lparr> organization_sites = \<lambda>_. Inl GraphQLError, menuTypes = \<lambda>_ _. Inl GraphQLError,
       menu_items = \<lambda>_ _ _. Inl GraphQLError \<rparr>
     \<lparr> year = 2024, month = 6, day = 12 \<rparr>
     [''districtId'' \<mapsto> ''1212'', ''schoolId'' \<mapsto> ''894'', ''menuName'' \<mapsto> ''Lunch'',
      ''numDays'' \<mapsto> ''1'']
     = Inr (False, [(''2024-06-12'', [''Menu not available''])]) \<and>
   [''Menu not available''] \<noteq> [PENDING_TEXT] \<and>
   [''Menu not available''] \<noteq> ([] :: string list)"
proof -
  let ?p = "\<lparr> organization_sites = \<lambda>_. Inl GraphQLError, menuTypes = \<lambda>_ _. Inl GraphQLError,
       menu_items = \<lambda>_ _ _. Inl GraphQLError \<rparr>"
  let ?t = "\<lparr> year = 2024, month = 6, day = 12 \<rparr>"
  have f: "fetch_menu_items ?p ?t ''1212'' ''894'' ''Lunch'' ''website'' = Inl GraphQLError"
    by (simp add: fetch_menu_items_def validate_site_in_district_def)
  have n: "next_school_days ?t 1 = Inr [?t]"
    by (simp add: calendar_eval)
  have w: "select_window False [(isoformat ?t, [''Menu not available''])] ?t [?t] =
           [(''2024-06-12'', [''Menu not available''])]"
    by (simp add: select_window_def select_day_def iso_2024_06_12)
  have g: "generate_image ?p ?t
     [''districtId'' \<mapsto> ''1212'', ''schoolId'' \<mapsto> ''894'', ''menuName'' \<mapsto> ''Lunch'',
      ''numDays'' \<mapsto> ''1'']
     = Inr (False, [(''2024-06-12'', [''Menu not available''])])"
    using f n w by (simp add: generate_image_def parse_example_one_day)
  have d: "[''Menu not available''] \<noteq> [PENDING_TEXT]" by (simp add: PENDING_TEXT_def)
  from f g d show ?thesis by simp
qed

text \<open>
  Claim C9, amended: whatever the fetch did, the mapping handed to the renderer has
  exactly \<open>days\<close> keys, the texts of the selected school days in their order, and the
  value of a selected day is: after a fetch that succeeded, the fetched list of that
  date or, the date missing, the one-element pending placeholder; after a fetch that
  failed, the empty list or, for today, the one-element list "Menu not available".
  Today is a calendar date at least a week before 9999-12-31.
\<close>

theorem menu_subset_entries:
  assumes p: "parse_settings s = Inr cfg"
    and v: "valid_date today" and h: "toordinal today + 7 \<le> toordinal date_max"
  shows "\<exists>fetch_ok menu_subset target_days.
           generate_image p today s = Inr (fetch_ok, menu_subset) \<and>
           next_school_days today (days cfg) = Inr target_days \<and>
           int (length menu_subset) = days cfg \<and>
           map fst menu_subset = map isoformat target_days \<and>
           distinct (map fst menu_subset) \<and>
           (\<forall>d\<in>set target_days. \<exists>v.
              map_of menu_subset (isoformat d) = Some v \<and>
              (case fetch_menu_items p today (district_id cfg) (school_id cfg) (menu_name cfg)
                      ''website'' of
                 Inr all_items \<Rightarrow>
                   fetch_ok \<and>
                   (map_of all_items (isoformat d) = Some v \<or>
                    map_of all_items (isoformat d) = None \<and> v = [PENDING_TEXT])
               | Inl e \<Rightarrow>
                   \<not> fetch_ok \<and> (v = [] \<or> d = today \<and> v = [''Menu not available''])))"
proof -
  have r: "1 \<le> days cfg" "days cfg \<le> 5"
    using parse_settings_days [OF p] parse_days_range [of s] by simp_all
  from next_school_days_total [OF v h r] obtain tds
    where n: "next_school_days today (days cfg) = Inr tds" and l: "int (length tds) = days cfg"
    by blast
  from next_school_days_sorted [OF n] have ge: "\<forall>d\<in>set tds. date_ge d today"
    and dist: "distinct tds"
    by (simp_all add: sorted_wrt_date_less_distinct)
  have dk: "distinct (map isoformat tds)"
    using dist by (simp add: distinct_map inj_on_def) (blast dest: isoformat_inj)
  show ?thesis
  proof (cases "fetch_menu_items p today (district_id cfg) (school_id cfg) (menu_name cfg) ''website''")
    case (Inl e)
    let ?m = "select_window False [(isoformat today, [''Menu not available''])] today tds"
    have g: "generate_image p today s = Inr (False, ?m)"
      using p Inl n by (rule generate_image_failed)
    have k: "map fst ?m = map isoformat tds" using n by (rule window_keys)
    have len: "int (length ?m) = days cfg"
      using l arg_cong [OF k, of length] by simp
    have dm: "distinct (map fst ?m)" unfolding k by (rule dk)
    have e: "\<forall>d\<in>set tds. \<exists>v. map_of ?m (isoformat d) = Some v \<and>
        (case fetch_menu_items p today (district_id cfg) (school_id cfg) (menu_name cfg) ''website'' of
           Inr all_items \<Rightarrow>
             False \<and> (map_of all_items (isoformat d) = Some v \<or>
                      map_of all_items (isoformat d) = None \<and> v = [PENDING_TEXT])
         | Inl e \<Rightarrow> \<not> False \<and> (v = [] \<or> d = today \<and> v = [''Menu not available'']))"
      unfolding Inl by (simp add: window_lookup failed_entry)
    show ?thesis
      by (rule exI [of _ False], rule exI [of _ ?m], rule exI [of _ tds])
         (intro conjI g n len k dm e)
  next
    case (Inr items)
    let ?m = "select_window True items today tds"
    have g: "generate_image p today s = Inr (True, ?m)"
      using p Inr n by (rule generate_image_fetched)
    have k: "map fst ?m = map isoformat tds" using n by (rule window_keys)
    have len: "int (length ?m) = days cfg"
      using l arg_cong [OF k, of length] by simp
    have dm: "distinct (map fst ?m)" unfolding k by (rule dk)
    have e: "\<forall>d\<in>set tds. \<exists>v. map_of ?m (isoformat d) = Some v \<and>
        (case fetch_menu_items p today (district_id cfg) (school_id cfg) (menu_name cfg) ''website'' of
           Inr all_items \<Rightarrow>
             True \<and> (map_of all_items (isoformat d) = Some v \<or>
                     map_of all_items (isoformat d) = None \<and> v = [PENDING_TEXT])
         | Inl e \<Rightarrow> \<not> True \<and> (v = [] \<or> d = today \<and> v = [''Menu not available'']))"
      unfolding Inr using ge by (auto simp: window_lookup day_entry_def split: option.splits)
    show ?thesis
      by (rule exI [of _ True], rule exI [of _ ?m], rule exI [of _ tds])
         (intro conjI g n len k dm e)
  qed
qed


theorem menu_subset_entries_witness:
  "\<exists>fetch_ok menu_subset.
     generate_image
       \<lparr> organization_sites = \<lambda>_. Inl GraphQLError, menuTypes = \<lambda>_ _. Inl GraphQLError,
         menu_items = \<lambda>_ _ _. Inl GraphQLError \<rparr>
       \<lparr> year = 2024, month = 6, day = 12 \<rparr>
       [''districtId'' \<mapsto> ''1212'', ''schoolId'' \<mapsto> ''894'', ''menuName'' \<mapsto> ''Lunch'',
        ''numDays'' \<mapsto> ''1'']
     = Inr (fetch_ok, menu_subset) \<and> length menu_subset = 1"
proof -
  let ?p = "\<lparr> organization_sites = \<lambda>_. Inl GraphQLError, menuTypes = \<lambda>_ _. Inl GraphQLError,
       menu_items = \<lambda>_ _ _. Inl GraphQLError \<rparr>"
  let ?t = "\<lparr> year = 2024, month = 6, day = 12 \<rparr>"
  have v: "valid_date ?t" by (simp add: valid_date_def days_in_month_def MAXYEAR_def)
  have o: "toordinal ?t = 739049"
    by (simp add: toordinal_def days_before_year_def days_before_month_def DAYS_BEFORE_MONTH_def
        is_leap_def)
  have h: "toordinal ?t + 7 \<le> toordinal date_max"
    unfolding o toordinal_date_max by simp
  from menu_subset_entries [OF parse_example_one_day v h, of ?p]
  obtain ok m tds where c: "generate_image ?p ?t
       [''districtId'' \<mapsto> ''1212'', ''schoolId'' \<mapsto> ''894'', ''menuName'' \<mapsto> ''Lunch'',
        ''numDays'' \<mapsto> ''1''] = Inr (ok, m)"
    and l: "int (length m) = 1"
    by auto
  from l have "length m = 1" by simp
  with c show ?thesis by (intro exI [of _ ok] exI [of _ m] conjI)
qed

section \<open>Resolution of the menu type\<close>

text \<open>\<open>is_substring\<close> is the containment of one string in another.\<close>

lemma take_is_prefix: "take (length t) s = t \<longleftrightarrow> (\<exists>q. s = t @ q)"
proof
  assume "take (length t) s = t"
  then have "s = t @ drop (length t) s" by (metis append_take_drop_id)
  then show "\<exists>q. s = t @ q" ..
next
  assume "\<exists>q. s = t @ q"
  then show "take (length t) s = t" by auto
qed

lemma is_substring_iff: "is_substring t s \<longleftrightarrow> (\<exists>p q. s = p @ t @ q)"
proof (induction s)
  case Nil
  then show ?case by auto
next
  case (Cons c cs)
  have "(\<exists>p q. c # cs = p @ t @ q) \<longleftrightarrow> (\<exists>q. c # cs = t @ q) \<or> (\<exists>p q. cs = p @ t @ q)"
  proof
    assume "\<exists>p q. c # cs = p @ t @ q"
    then obtain p q where e: "c # cs = p @ t @ q" by blast
    show "(\<exists>q. c # cs = t @ q) \<or> (\<exists>p q. cs = p @ t @ q)"
    proof (cases p)
      case Nil
      with e show ?thesis by auto
    next
      case (Cons a p')
      with e have "cs = p' @ t @ q" by simp
      then show ?thesis by blast
    qed
  next
    assume "(\<exists>q. c # cs = t @ q) \<or> (\<exists>p q. cs = p @ t @ q)"
    then show "\<exists>p q. c # cs = p @ t @ q"
    proof
      assume "\<exists>q. c # cs = t @ q"
      then obtain q where "c # cs = [] @ t @ q" by auto
      then show ?thesis by blast
    next
      assume "\<exists>p q. cs = p @ t @ q"
      then obtain p q where "c # cs = (c # p) @ t @ q" by auto
      then show ?thesis by blast
    qed
  qed
  with Cons show ?case by (simp add: take_is_prefix del: take_Suc_Cons)
qed

lemma is_substring_refl: "is_substring t t"
  by (cases t) simp_all

lemma matching_Cons:
  assumes "normalized_name mt = Some n"
  shows "matching P (mt # mts) =
         (case matching P mts of Inl e \<Rightarrow> Inl e | Inr r \<Rightarrow> Inr (if P n then mt # r else r))"
proof (cases "mt_name mt")
  case None
  with assms show ?thesis by (auto simp: normalized_name_def split: sum.splits)
next
  case (Some v)
  with assms show ?thesis by (cases v) (auto simp: normalized_name_def split: sum.splits)
qed

lemma matching_filter:
  assumes "list_all (\<lambda>mt. normalized_name mt \<noteq> None) mts"
  shows "matching P mts =
         Inr (filter (\<lambda>mt. case normalized_name mt of None \<Rightarrow> False | Some n \<Rightarrow> P n) mts)"
  using assms
proof (induction mts)
  case Nil
  then show ?case by simp
next
  case (Cons mt mts)
  from Cons.prems obtain n where n: "normalized_name mt = Some n" by auto
  from Cons have "matching P mts =
      Inr (filter (\<lambda>mt. case normalized_name mt of None \<Rightarrow> False | Some n \<Rightarrow> P n) mts)"
    by simp
  then show ?case
    unfolding matching_Cons [OF n] by (simp add: n)
qed

lemma well_formed_names: "well_formed mts \<Longrightarrow> list_all (\<lambda>mt. normalized_name mt \<noteq> None) mts"
  by (simp add: well_formed_def list_all_iff)

lemma matching_exact:
  assumes "well_formed mts"
  shows "matching (\<lambda>n. n = normalize_name name) mts = Inr (exact_matches name mts)"
proof -
  have "filter (\<lambda>mt. case normalized_name mt of None \<Rightarrow> False | Some n \<Rightarrow> n = normalize_name name) mts
        = exact_matches name mts"
    unfolding exact_matches_def by (rule filter_cong) (auto split: option.splits)
  with matching_filter [OF well_formed_names [OF assms]] show ?thesis by simp
qed

lemma matching_partial:
  assumes "well_formed mts"
  shows "matching (is_substring (normalize_name name)) mts = Inr (partial_matches name mts)"
  using matching_filter [OF well_formed_names [OF assms]] by (simp add: partial_matches_def)

lemma resolve_cases:
  assumes "well_formed mts"
  shows "resolve_menu_type name mts =
     (if length (exact_matches name mts) = 1 then id_of (hd (exact_matches name mts))
      else if length (exact_matches name mts) > 1 then Inl (ValueError (AmbiguousExact name))
      else if length (partial_matches name mts) = 1 then id_of (hd (partial_matches name mts))
      else if partial_matches name mts = [] then
        Inl (ValueError (MenuNameNotFound name (map name_of mts)))
      else Inl (ValueError (AmbiguousCandidates name (map name_of (partial_matches name mts)))))"
  by (simp add: resolve_menu_type_def Let_def matching_exact [OF assms] matching_partial [OF assms])

lemma exact_le_partial: "length (exact_matches name mts) \<le> length (partial_matches name mts)"
proof -
  have "exact_matches name mts = filter (\<lambda>mt. normalized_name mt = Some (normalize_name name))
      (partial_matches name mts)"
    unfolding exact_matches_def partial_matches_def
    by (auto simp: is_substring_refl intro!: filter_cong)
  then show ?thesis by (metis length_filter_le)
qed

lemma id_of_well_formed:
  assumes "well_formed mts" "mt \<in> set mts"
  shows "\<exists>i. id_of mt = Inr i"
  using assms by (auto simp: well_formed_def list_all_iff id_of_def split: option.splits)

lemma well_formed_mset: "mset mts' = mset mts \<Longrightarrow> well_formed mts \<Longrightarrow> well_formed mts'"
  by (auto simp: well_formed_def list_all_iff dest: mset_eq_setD)

lemma exact_matches_mset:
  assumes "mset mts' = mset mts" "exact_matches name mts = [c]"
  shows "exact_matches name mts' = [c]"
proof -
  have "mset (exact_matches name mts') = mset (exact_matches name mts)"
    unfolding exact_matches_def using assms(1) by (simp add: mset_filter)
  with assms(2) have "mset (exact_matches name mts') = {#c#}" by simp
  then show ?thesis by (simp add: mset_single_iff_right)
qed

text \<open>
  Claim C3: when exactly one candidate has a normalized name equal to the normalized
  target, the resolution returns the id of that candidate, in whatever order the
  candidates come and however many of them contain the target.  The candidates are
  menu types as the provider's schema has them: the name a string, the id present.
\<close>

theorem unique_exact_match_resolves:
  assumes wf: "well_formed mts"
    and one: "exact_matches name mts = [c]"
    and i: "mt_id c = Some i"
    and perm: "mset mts' = mset mts"
  shows "resolve_menu_type name mts' = Inr i"
proof -
  have wf': "well_formed mts'" using perm wf by (rule well_formed_mset)
  have one': "exact_matches name mts' = [c]" using perm one by (rule exact_matches_mset)
  show ?thesis
    unfolding resolve_cases [OF wf'] one' by (simp add: id_of_def i)
qed

lemma example_candidates_well_formed:
  "well_formed
     [\<lparr> mt_id = Some (PStr ''7''), mt_name = Some (PStr ''Lunch Elementary Schools'') \<rparr>,
      \<lparr> mt_id = Some (PStr ''8''), mt_name = Some (PStr ''Lunch'') \<rparr>,
      \<lparr> mt_id = Some (PStr ''9''), mt_name = Some (PStr ''  LUNCH   Middle Schools'') \<rparr>]"
  by (simp add: well_formed_def normalized_name_def)

lemma example_candidates_exact:
  "exact_matches '' lunch''
     [\<lparr> mt_id = Some (PStr ''7''), mt_name = Some (PStr ''Lunch Elementary Schools'') \<rparr>,
      \<lparr> mt_id = Some (PStr ''8''), mt_name = Some (PStr ''Lunch'') \<rparr>,
      \<lparr> mt_id = Some (PStr ''9''), mt_name = Some (PStr ''  LUNCH   Middle Schools'') \<rparr>]
   = [\<lparr> mt_id = Some (PStr ''8''), mt_name = Some (PStr ''Lunch'') \<rparr>]"
  by code_simp

theorem unique_exact_match_resolves_witness:
  "resolve_menu_type '' lunch''
     [\<lparr> mt_id = Some (PStr ''9''), mt_name = Some (PStr ''  LUNCH   Middle Schools'') \<rparr>,
      \<lparr> mt_id = Some (PStr ''7''), mt_name = Some (PStr ''Lunch Elementary Schools'') \<rparr>,
      \<lparr> mt_id = Some (PStr ''8''), mt_name = Some (PStr ''Lunch'') \<rparr>]
   = Inr (PStr ''8'')"
proof -
  let ?a = "\<lparr> mt_id = Some (PStr ''7''), mt_name = Some (PStr ''Lunch Elementary Schools'') \<rparr>"
  let ?b = "\<lparr> mt_id = Some (PStr ''8''), mt_name = Some (PStr ''Lunch'') \<rparr>"
  let ?c = "\<lparr> mt_id = Some (PStr ''9''), mt_name = Some (PStr ''  LUNCH   Middle Schools'') \<rparr>"
  have i: "mt_id ?b = Some (PStr ''8'')" by simp
  have perm: "mset [?c, ?a, ?b] = mset [?a, ?b, ?c]" by (simp add: ac_simps)
  from unique_exact_match_resolves
    [OF example_candidates_well_formed example_candidates_exact i perm]
  show ?thesis .
qed

text \<open>
  Claim C4: the resolution fails exactly when there is not exactly one exact match and
  not exactly one partial match.  With two or more exact matches the error is the
  ambiguity error of the exact pass; with no exact match it is the not-found error
  listing the names of all candidates when no candidate contains the target, and the
  ambiguity error listing the names of the matching candidates when two or more do.
  In the program these are \<open>ValueError\<close>s with the messages "Ambiguous menu name ...
  (multiple exact matches)", "Menu name ... not found. Available: ..." and "Ambiguous
  menu name ... Candidates: ...".  The candidates are menu types as the provider's
  schema has them: the name a string, the id present.
\<close>

theorem resolution_failures:
  assumes wf: "well_formed mts"
  shows "(2 \<le> length (exact_matches name mts) \<longrightarrow>
            resolve_menu_type name mts = Inl (ValueError (AmbiguousExact name))) \<and>
         (exact_matches name mts = [] \<and> partial_matches name mts = [] \<longrightarrow>
            resolve_menu_type name mts =
            Inl (ValueError (MenuNameNotFound name (map name_of mts)))) \<and>
         (exact_matches name mts = [] \<and> 2 \<le> length (partial_matches name mts) \<longrightarrow>
            resolve_menu_type name mts =
            Inl (ValueError (AmbiguousCandidates name (map name_of (partial_matches name mts))))) \<and>
         (isl (resolve_menu_type name mts) \<longleftrightarrow>
            length (exact_matches name mts) \<noteq> 1 \<and> length (partial_matches name mts) \<noteq> 1)"
proof -
  note r = resolve_cases [OF wf, of name]
  have a: "2 \<le> length (exact_matches name mts) \<longrightarrow>
            resolve_menu_type name mts = Inl (ValueError (AmbiguousExact name))"
    unfolding r by simp
  have b: "exact_matches name mts = [] \<and> partial_matches name mts = [] \<longrightarrow>
            resolve_menu_type name mts =
            Inl (ValueError (MenuNameNotFound name (map name_of mts)))"
    unfolding r by simp
  have c: "exact_matches name mts = [] \<and> 2 \<le> length (partial_matches name mts) \<longrightarrow>
            resolve_menu_type name mts =
            Inl (ValueError (AmbiguousCandidates name (map name_of (partial_matches name mts))))"
    unfolding r by auto
  have e: "length (exact_matches name mts) = 1 \<Longrightarrow> \<not> isl (id_of (hd (exact_matches name mts)))"
  proof -
    assume "length (exact_matches name mts) = 1"
    then have "hd (exact_matches name mts) \<in> set (exact_matches name mts)"
      by (cases "exact_matches name mts") simp_all
    then have "hd (exact_matches name mts) \<in> set mts" by (simp add: exact_matches_def)
    from id_of_well_formed [OF wf this] show ?thesis by auto
  qed
  have p: "length (partial_matches name mts) = 1 \<Longrightarrow> \<not> isl (id_of (hd (partial_matches name mts)))"
  proof -
    assume "length (partial_matches name mts) = 1"
    then have "hd (partial_matches name mts) \<in> set (partial_matches name mts)"
      by (cases "partial_matches name mts") simp_all
    then have "hd (partial_matches name mts) \<in> set mts" by (simp add: partial_matches_def)
    from id_of_well_formed [OF wf this] show ?thesis by auto
  qed
  have d: "isl (resolve_menu_type name mts) \<longleftrightarrow>
            length (exact_matches name mts) \<noteq> 1 \<and> length (partial_matches name mts) \<noteq> 1"
    unfolding r using e p exact_le_partial [of name mts] by auto
  from a b c d show ?thesis by (intro conjI)
qed

lemma example_twins_well_formed:
  "well_formed
     [\<lparr> mt_id = Some (PStr ''7''), mt_name = Some (PStr ''Lunch'') \<rparr>,
      \<lparr> mt_id = Some (PStr ''8''), mt_name = Some (PStr '' lunch '') \<rparr>]"
  by (simp add: well_formed_def normalized_name_def)

lemma example_twins_exact:
  "exact_matches ''LUNCH''
     [\<lparr> mt_id = Some (PStr ''7''), mt_name = Some (PStr ''Lunch'') \<rparr>,
      \<lparr> mt_id = Some (PStr ''8''), mt_name = Some (PStr '' lunch '') \<rparr>]
   = [\<lparr> mt_id = Some (PStr ''7''), mt_name = Some (PStr ''Lunch'') \<rparr>,
      \<lparr> mt_id = Some (PStr ''8''), mt_name = Some (PStr '' lunch '') \<rparr>]"
  by code_simp

theorem resolution_failures_witness:
  "resolve_menu_type ''LUNCH''
     [\<lparr> mt_id = Some (PStr ''7''), mt_name = Some (PStr ''Lunch'') \<rparr>,
      \<lparr> mt_id = Some (PStr ''8''), mt_name = Some (PStr '' lunch '') \<rparr>]
   = Inl (ValueError (AmbiguousExact ''LUNCH''))"
proof -
  let ?mts = "[\<lparr> mt_id = Some (PStr ''7''), mt_name = Some (PStr ''Lunch'') \<rparr>,
      \<lparr> mt_id = Some (PStr ''8''), mt_name = Some (PStr '' lunch '') \<rparr>]"
  have two: "2 \<le> length (exact_matches ''LUNCH'' ?mts)"
    unfolding example_twins_exact by simp
  from resolution_failures [OF example_twins_well_formed, of "''LUNCH''"]
  have "2 \<le> length (exact_matches ''LUNCH'' ?mts) \<longrightarrow>
        resolve_menu_type ''LUNCH'' ?mts = Inl (ValueError (AmbiguousExact ''LUNCH''))"
    by (rule conjunct1)
  then show ?thesis using two by (rule mp)
qed

section \<open>The fetched mapping\<close>

lemma clean_dict_append:
  assumes "clean d" "normalize_name x \<notin> COMMON_MENU_ITEM_FILTER"
  shows "clean (dict_append d k x)"
  unfolding clean_def
proof (intro ballI, clarify)
  fix k' v'
  assume "(k', v') \<in> set (dict_append d k x)"
  then have "(k' = k \<and> v' = (case map_of d k of None \<Rightarrow> [] | Some v \<Rightarrow> v) @ [x]) \<or> (k', v') \<in> set d"
    unfolding dict_append_def by (rule set_dict_set)
  then show "v' \<noteq> [] \<and> (\<forall>y\<in>set v'. normalize_name y \<notin> COMMON_MENU_ITEM_FILTER)"
  proof
    assume n: "k' = k \<and> v' = (case map_of d k of None \<Rightarrow> [] | Some v \<Rightarrow> v) @ [x]"
    show ?thesis
    proof (cases "map_of d k")
      case None
      with n assms(2) show ?thesis by simp
    next
      case (Some v)
      then have "(k, v) \<in> set d" by (rule map_of_SomeD)
      with assms(1) have "\<forall>y\<in>set v. normalize_name y \<notin> COMMON_MENU_ITEM_FILTER"
        by (auto simp: clean_def)
      with n Some assms(2) show ?thesis by simp
    qed
  next
    assume "(k', v') \<in> set d"
    with assms(1) show ?thesis by (auto simp: clean_def)
  qed
qed

lemma process_item_inv:
  assumes "process_item m_idx year_val by_date it = Inr by_date'"
    "clean by_date" "distinct (map fst by_date)"
  shows "clean by_date' \<and> distinct (map fst by_date')"
proof -
  from assms(1) have "by_date' = by_date \<or>
      (\<exists>k s. normalize_name s \<notin> COMMON_MENU_ITEM_FILTER \<and> by_date' = dict_append by_date k s)"
    by (auto simp: process_item_def Let_def split: option.splits if_splits pyval.splits)
  then show ?thesis
  proof
    assume "by_date' = by_date"
    with assms(2,3) show ?thesis by simp
  next
    assume "\<exists>k s. normalize_name s \<notin> COMMON_MENU_ITEM_FILTER \<and> by_date' = dict_append by_date k s"
    then obtain k s where s: "normalize_name s \<notin> COMMON_MENU_ITEM_FILTER"
      and b: "by_date' = dict_append by_date k s" by blast
    from assms(2) s have "clean (dict_append by_date k s)" by (rule clean_dict_append)
    moreover from assms(3) have "distinct (map fst (dict_append by_date k s))"
      unfolding dict_append_def by (rule distinct_dict_set)
    ultimately show ?thesis by (simp add: b)
  qed
qed

lemma process_items_inv:
  assumes "process_items m_idx year_val by_date items = Inr by_date'"
    "clean by_date" "distinct (map fst by_date)"
  shows "clean by_date' \<and> distinct (map fst by_date')"
  using assms
proof (induction items arbitrary: by_date)
  case Nil
  then show ?case by simp
next
  case (Cons it items)
  from Cons.prems(1) obtain mid where 1: "process_item m_idx year_val by_date it = Inr mid"
    and 2: "process_items m_idx year_val mid items = Inr by_date'"
    by (auto split: sum.splits)
  from process_item_inv [OF 1 Cons.prems(2,3)] Cons.IH [OF 2] show ?case by blast
qed

lemma fetch_months_inv:
  assumes "fetch_months p mt by_date ms = Inr by_date'"
    "clean by_date" "distinct (map fst by_date)"
  shows "clean by_date' \<and> distinct (map fst by_date')"
  using assms
proof (induction ms arbitrary: by_date)
  case Nil
  then show ?case by simp
next
  case (Cons my ms)
  obtain m_idx year_val where my: "my = (m_idx, year_val)" by (cases my)
  from Cons.prems(1) obtain items mid where 1: "process_items m_idx year_val by_date items = Inr mid"
    and 2: "fetch_months p mt mid ms = Inr by_date'"
    unfolding my by (auto split: sum.splits)
  from process_items_inv [OF 1 Cons.prems(2,3)] Cons.IH [OF 2] show ?case by blast
qed

lemma dict_set_fresh: "k \<notin> set (map fst d) \<Longrightarrow> dict_set d k v = d @ [(k, v)]"
  by (induction d k v rule: dict_set.induct) auto

lemma foldl_dict_set_fresh:
  assumes "distinct ks" "set ks \<inter> set (map fst acc) = {}"
  shows "foldl (\<lambda>acc k. dict_set acc k (f k)) acc ks = acc @ map (\<lambda>k. (k, f k)) ks"
  using assms
proof (induction ks arbitrary: acc)
  case Nil
  then show ?case by simp
next
  case (Cons k ks)
  from Cons.prems(2) have fresh: "dict_set acc k (f k) = acc @ [(k, f k)]"
    by (intro dict_set_fresh) auto
  have "foldl (\<lambda>acc k. dict_set acc k (f k)) (acc @ [(k, f k)]) ks =
        (acc @ [(k, f k)]) @ map (\<lambda>k. (k, f k)) ks"
    using Cons.prems by (intro Cons.IH) auto
  then show ?case by (simp add: fresh)
qed

lemma order_and_filter_eq:
  assumes "distinct (map fst by_date)"
  shows "order_and_filter by_date =
         filter (\<lambda>(k, v). v \<noteq> [])
           (map (\<lambda>k. (k, case map_of by_date k of None \<Rightarrow> [] | Some v \<Rightarrow> v))
              (sort (map fst by_date)))"
proof -
  have "distinct (sort (map fst by_date))" using assms by simp
  then show ?thesis
    unfolding order_and_filter_def Let_def
    by (subst foldl_dict_set_fresh) simp_all
qed

lemma keys_of_filtered:
  "map fst (filter (\<lambda>(k, v). v \<noteq> []) (map (\<lambda>k. (k, f k)) ks)) = filter (\<lambda>k. f k \<noteq> []) ks"
  by (induction ks) auto

lemma order_and_filter_inv:
  assumes "distinct (map fst by_date)" "clean by_date"
  shows "sorted (map fst (order_and_filter by_date)) \<and>
         distinct (map fst (order_and_filter by_date)) \<and>
         clean (order_and_filter by_date)"
proof -
  let ?f = "\<lambda>k. case map_of by_date k of None \<Rightarrow> [] | Some v \<Rightarrow> v"
  let ?ks = "sort (map fst by_date)"
  note e = order_and_filter_eq [OF assms(1)]
  have k: "map fst (order_and_filter by_date) = filter (\<lambda>k. ?f k \<noteq> []) ?ks"
    unfolding e by (rule keys_of_filtered)
  have s: "sorted (filter (\<lambda>k. ?f k \<noteq> []) ?ks)"
    by (rule sorted_wrt_filter) simp
  have d: "distinct (filter (\<lambda>k. ?f k \<noteq> []) ?ks)"
    using assms(1) by simp
  have c: "clean (order_and_filter by_date)"
    unfolding clean_def
  proof (intro ballI, clarify)
    fix k v
    assume "(k, v) \<in> set (order_and_filter by_date)"
    then have v: "v = ?f k" and ne: "v \<noteq> []" unfolding e by auto
    then obtain w where w: "map_of by_date k = Some w" by (cases "map_of by_date k") auto
    then have "(k, w) \<in> set by_date" by (rule map_of_SomeD)
    with assms(2) have "\<forall>x\<in>set w. normalize_name x \<notin> COMMON_MENU_ITEM_FILTER"
      by (auto simp: clean_def)
    with v w ne show "v \<noteq> [] \<and> (\<forall>x\<in>set v. normalize_name x \<notin> COMMON_MENU_ITEM_FILTER)"
      by simp
  qed
  from s d c show ?thesis unfolding k by (intro conjI)
qed

lemma fetch_menu_items_Inr:
  assumes "fetch_menu_items p today district site name loc = Inr m"
  shows "\<exists>mt by_date. fetch_months p mt [] (months_to_fetch today) = Inr by_date \<and>
           m = order_and_filter by_date"
  using assms
  by (auto simp: fetch_menu_items_def split: sum.splits if_splits)

text \<open>
  Claim C6: whatever items the provider returns, a mapping returned by the fetcher has
  its keys in ascending order (the order of strings, which for dates written with four,
  two and two digits is the order of time) without a repeated key, has no empty list
  among its values, and holds no name whose normalization is in the boilerplate set.
\<close>

theorem fetched_mapping_ordered_and_clean:
  assumes "fetch_menu_items p today district site name loc = Inr m"
  shows "sorted (map fst m) \<and> distinct (map fst m) \<and>
         (\<forall>(k, v)\<in>set m. v \<noteq> [] \<and> (\<forall>x\<in>set v. normalize_name x \<notin> COMMON_MENU_ITEM_FILTER))"
proof -
  from fetch_menu_items_Inr [OF assms] obtain mt by_date
    where f: "fetch_months p mt [] (months_to_fetch today) = Inr by_date"
      and m: "m = order_and_filter by_date" by blast
  have "clean []" by (simp add: clean_def)
  with fetch_months_inv [OF f] have "clean by_date" "distinct (map fst by_date)" by simp_all
  from order_and_filter_inv [OF this(2,1)] show ?thesis
    unfolding m clean_def by simp
qed

lemma fetch_example:
  "fetch_menu_items
     \<lparr> organization_sites = \<lambda>_. Inl HTTPError,
       menuTypes = \<lambda>_ _. Inr [\<lparr> mt_id = Some (PStr ''8''), mt_name = Some (PStr ''Lunch'') \<rparr>],
       menu_items = \<lambda>_ _ _. Inr
         [\<lparr> item_day = PInt 12, item_month = PNone, item_year = PNone, product_name = PStr ''Pizza'' \<rparr>,
          \<lparr> item_day = PInt 11, item_month = PInt 5, item_year = PInt 2024,
            product_name = PStr ''Non-Fat  MILK'' \<rparr>,
          \<lparr> item_day = PStr ''11'', item_month = PNone, item_year = PNone,
            product_name = PStr ''Salad'' \<rparr>] \<rparr>
     \<lparr> year = 2024, month = 6, day = 12 \<rparr> [] ''894'' ''lunch'' ''website''
   = Inr [(''2024-06-11'', [''Salad'']), (''2024-06-12'', [''Pizza''])]"
  by code_simp

theorem fetched_mapping_ordered_and_clean_witness:
  "sorted (map fst [(''2024-06-11'', [''Salad'']), (''2024-06-12'', [''Pizza''])]) \<and>
   distinct (map fst [(''2024-06-11'', [''Salad'']), (''2024-06-12'', [''Pizza''])]) \<and>
   normalize_name ''Salad'' \<notin> COMMON_MENU_ITEM_FILTER"
proof -
  note c = fetched_mapping_ordered_and_clean [OF fetch_example]
  from c have s: "sorted (map fst [(''2024-06-11'', [''Salad'']), (''2024-06-12'', [''Pizza''])])"
    by (rule conjunct1)
  from c have d: "distinct (map fst [(''2024-06-11'', [''Salad'']), (''2024-06-12'', [''Pizza''])])"
    by (rule conjunct1 [OF conjunct2])
  from c have "\<forall>(k, v)\<in>set [(''2024-06-11'', [''Salad'']), (''2024-06-12'', [''Pizza''])].
      v \<noteq> [] \<and> (\<forall>x\<in>set v. normalize_name x \<notin> COMMON_MENU_ITEM_FILTER)"
    by (rule conjunct2 [OF conjunct2])
  then have n: "normalize_name ''Salad'' \<notin> COMMON_MENU_ITEM_FILTER" by simp
  from s d n show ?thesis by (intro conjI)
qed

section \<open>The months queried\<close>

lemma fetch_months_frame:
  assumes "\<forall>(m, y)\<in>set ms. menu_items p' mt m y = menu_items p mt m y"
  shows "fetch_months p' mt by_date ms = fetch_months p mt by_date ms"
  using assms
proof (induction ms arbitrary: by_date)
  case Nil
  then show ?case by simp
next
  case (Cons my ms)
  obtain m y where my: "my = (m, y)" by (cases my)
  from Cons.prems have h: "menu_items p' mt m y = menu_items p mt m y"
    and t: "\<forall>(m, y)\<in>set ms. menu_items p' mt m y = menu_items p mt m y"
    by (simp_all add: my)
  show ?case
    unfolding my using Cons.IH [OF t] by (simp add: h split: sum.splits)
qed

lemma fetch_months_failing:
  assumes "fetch_months p mt by_date ms = Inr r" "(m, y) \<in> set ms"
  shows "fetch_months
           (p\<lparr>menu_items := \<lambda>i m' y'. if m' = m \<and> y' = y then Inl e else menu_items p i m' y'\<rparr>)
           mt by_date ms = Inl e"
  using assms
proof (induction ms arbitrary: by_date)
  case Nil
  then show ?case by simp
next
  case (Cons my ms)
  obtain m0 y0 where my: "my = (m0, y0)" by (cases my)
  show ?case
  proof (cases "(m0, y0) = (m, y)")
    case True
    then show ?thesis unfolding my by simp
  next
    case False
    from Cons.prems(1) obtain items mid where i: "menu_items p mt m0 y0 = Inr items"
      and pr: "process_items m0 y0 by_date items = Inr mid"
      and rest: "fetch_months p mt mid ms = Inr r"
      unfolding my by (auto split: sum.splits)
    from Cons.prems(2) False have "(m, y) \<in> set ms" by (auto simp: my)
    from Cons.IH [OF rest this] False i pr show ?thesis unfolding my by simp
  qed
qed


lemma months_to_fetch_spec: "set (months_to_fetch today) = spec_months today"
  by (auto simp: months_to_fetch_def spec_months_def zero_indexed_def following_month_def)

lemma fetch_menu_items_frame:
  assumes "organization_sites p' = organization_sites p" "menuTypes p' = menuTypes p"
    "\<forall>i. \<forall>(m, y)\<in>set (months_to_fetch today). menu_items p' i m y = menu_items p i m y"
  shows "fetch_menu_items p' today district site name loc =
         fetch_menu_items p today district site name loc"
proof -
  have fm: "fetch_months p' i [] (months_to_fetch today) = fetch_months p i [] (months_to_fetch today)"
    for i using assms(3) by (intro fetch_months_frame) blast
  have v: "validate_site_in_district p' district site = validate_site_in_district p district site"
    by (simp add: validate_site_in_district_def assms(1))
  show ?thesis
    unfolding fetch_menu_items_def v assms(2) fm ..
qed

lemma fetch_menu_items_failing:
  assumes "fetch_menu_items p today district site name loc = Inr r"
    "(m, y) \<in> set (months_to_fetch today)"
  shows "fetch_menu_items
           (p\<lparr>menu_items := \<lambda>i m' y'. if m' = m \<and> y' = y then Inl e else menu_items p i m' y'\<rparr>)
           today district site name loc = Inl e"
proof -
  let ?p = "p\<lparr>menu_items := \<lambda>i m' y'. if m' = m \<and> y' = y then Inl e else menu_items p i m' y'\<rparr>"
  from assms(1) obtain u mts i by_date
    where v: "(if district \<noteq> [] then validate_site_in_district p district site else Inr ()) = Inr u"
      and t: "menuTypes p site loc = Inr mts" and ne: "mts \<noteq> []"
      and i: "resolve_menu_type name mts = Inr i"
      and f: "fetch_months p i [] (months_to_fetch today) = Inr by_date"
    by (auto simp: fetch_menu_items_def split: sum.splits if_splits)
  have "validate_site_in_district ?p district site = validate_site_in_district p district site"
    by (simp add: validate_site_in_district_def)
  with v have v': "(if district \<noteq> [] then validate_site_in_district ?p district site else Inr ()) = Inr u"
    by (cases "district = []") simp_all
  have t': "menuTypes ?p site loc = Inr mts" using t by simp
  from fetch_months_failing [OF f assms(2)]
  have "fetch_months ?p i [] (months_to_fetch today) = Inl e" .
  with v' t' ne i show ?thesis
    unfolding fetch_menu_items_def by (simp split: sum.splits)
qed

text \<open>
  Claim C5: the fetcher queries the current calendar month, and after it the following
  month exactly when the day of the month is greater than 20; the month following
  December of a year is January of the next year, and months go to the provider
  counted from 0.  That these pairs and no others are queried shows in the result of
  \<open>fetch_menu_items\<close>: it is the same for two providers that answer alike for these
  pairs, whatever they answer for other months; and when it is a mapping, a provider
  that fails for one of these pairs makes the whole fetch fail with that error.
\<close>

theorem months_queried:
  "months_to_fetch today =
     zero_indexed (month today, year today) #
     (if 20 < day today then [zero_indexed (following_month (month today, year today))] else []) \<and>
   set (months_to_fetch today) = spec_months today \<and>
   (organization_sites p' = organization_sites p \<and> menuTypes p' = menuTypes p \<and>
    (\<forall>i. \<forall>(m, y)\<in>spec_months today. menu_items p' i m y = menu_items p i m y) \<longrightarrow>
    fetch_menu_items p' today district site name loc =
    fetch_menu_items p today district site name loc) \<and>
   (\<forall>r. fetch_menu_items p today district site name loc = Inr r \<longrightarrow>
      (\<forall>(m, y)\<in>spec_months today.
         fetch_menu_items
           (p\<lparr>menu_items := \<lambda>i m' y'. if m' = m \<and> y' = y then Inl e else menu_items p i m' y'\<rparr>)
           today district site name loc = Inl e))"
proof -
  have a: "months_to_fetch today =
     zero_indexed (month today, year today) #
     (if 20 < day today then [zero_indexed (following_month (month today, year today))] else [])"
    by (simp add: months_to_fetch_def zero_indexed_def following_month_def)
  have b: "set (months_to_fetch today) = spec_months today" by (rule months_to_fetch_spec)
  have c: "organization_sites p' = organization_sites p \<and> menuTypes p' = menuTypes p \<and>
    (\<forall>i. \<forall>(m, y)\<in>spec_months today. menu_items p' i m y = menu_items p i m y) \<longrightarrow>
    fetch_menu_items p' today district site name loc =
    fetch_menu_items p today district site name loc"
    unfolding b [symmetric] by (auto intro: fetch_menu_items_frame)
  have d: "\<forall>r. fetch_menu_items p today district site name loc = Inr r \<longrightarrow>
      (\<forall>(m, y)\<in>spec_months today.
         fetch_menu_items
           (p\<lparr>menu_items := \<lambda>i m' y'. if m' = m \<and> y' = y then Inl e else menu_items p i m' y'\<rparr>)
           today district site name loc = Inl e)"
    unfolding b [symmetric] by (auto intro: fetch_menu_items_failing)
  from a b c d show ?thesis by (intro conjI)
qed


lemma fetch_empty_example:
  "fetch_menu_items
     \<lparr> organization_sites = \<lambda>_. Inl HTTPError,
       menuTypes = \<lambda>_ _. Inr [\<lparr> mt_id = Some (PStr ''8''), mt_name = Some (PStr ''Lunch'') \<rparr>],
       menu_items = \<lambda>_ _ _. Inr [] \<rparr>
     \<lparr> year = 2024, month = 12, day = 25 \<rparr> [] ''894'' ''Lunch'' ''website'' = Inr []"
  by code_simp

theorem months_queried_witness:
  "fetch_menu_items
     (\<lparr> organization_sites = \<lambda>_. Inl HTTPError,
        menuTypes = \<lambda>_ _. Inr [\<lparr> mt_id = Some (PStr ''8''), mt_name = Some (PStr ''Lunch'') \<rparr>],
        menu_items = \<lambda>_ _ _. Inr [] \<rparr>
      \<lparr>menu_items := \<lambda>i m' y'. if m' = 0 \<and> y' = 2025 then Inl GraphQLError else Inr []\<rparr>)
     \<lparr> year = 2024, month = 12, day = 25 \<rparr> [] ''894'' ''Lunch'' ''website'' = Inl GraphQLError"
proof -
  let ?p = "\<lparr> organization_sites = \<lambda>_. Inl HTTPError,
       menuTypes = \<lambda>_ _. Inr [\<lparr> mt_id = Some (PStr ''8''), mt_name = Some (PStr ''Lunch'') \<rparr>],
       menu_items = \<lambda>_ _ _. Inr ([] :: raw_item list) \<rparr>"
  let ?t = "\<lparr> year = 2024, month = 12, day = 25 \<rparr>"
  have mem: "(0, 2025) \<in> spec_months ?t"
    by (simp add: spec_months_def zero_indexed_def following_month_def)
  note c = months_queried [where today = ?t and p = ?p and district = "[]" and site = "''894''"
      and name = "''Lunch''" and loc = "''website''" and e = GraphQLError]
  from c have "\<forall>r. fetch_menu_items ?p ?t [] ''894'' ''Lunch'' ''website'' = Inr r \<longrightarrow>
      (\<forall>(m, y)\<in>spec_months ?t.
         fetch_menu_items
           (?p\<lparr>menu_items := \<lambda>i m' y'. if m' = m \<and> y' = y then Inl GraphQLError
                                      else menu_items ?p i m' y'\<rparr>)
           ?t [] ''894'' ''Lunch'' ''website'' = Inl GraphQLError)"
    by (rule conjunct2 [OF conjunct2 [OF conjunct2]])
  with fetch_empty_example have "\<forall>(m, y)\<in>spec_months ?t.
         fetch_menu_items
           (?p\<lparr>menu_items := \<lambda>i m' y'. if m' = m \<and> y' = y then Inl GraphQLError
                                      else menu_items ?p i m' y'\<rparr>)
           ?t [] ''894'' ''Lunch'' ''website'' = Inl GraphQLError"
    by blast
  from bspec [OF this mem] show ?thesis by (simp cong: if_cong)
qed

end
